theory Spec2Isabelle
  imports Complex_Main "HOL-Library.Sublist" "HOL-Library.Product_Lexorder"
begin

section \<open>Strings and numbers of the host language\<close>

text \<open>
  Strings are \<open>char list\<close>. The text functions of Python that the program calls are
  modelled on ASCII text: \<open>lower\<close> changes the letters A to Z only, and the whitespace
  characters are the ASCII ones for which \<open>str.isspace\<close> holds.
\<close>

definition isspace :: "char \<Rightarrow> bool" where
  "isspace c = (c \<in> set [CHR '' '', CHR 0x09, CHR 0x0A, CHR 0x0B, CHR 0x0C, CHR 0x0D,
                         CHR 0x1C, CHR 0x1D, CHR 0x1E, CHR 0x1F])"

definition lower_char :: "char \<Rightarrow> char" where
  "lower_char c =
     (case map_of (zip ''ABCDEFGHIJKLMNOPQRSTUVWXYZ'' ''abcdefghijklmnopqrstuvwxyz'') c of
        None \<Rightarrow> c | Some l \<Rightarrow> l)"

definition lower :: "string \<Rightarrow> string" where
  "lower s = map lower_char s"

definition strip :: "string \<Rightarrow> string" where
  "strip s = rev (dropWhile isspace (rev (dropWhile isspace s)))"

text \<open>\<open>s.split()\<close>: the maximal runs of non-whitespace characters, in order.\<close>

fun split_acc :: "string \<Rightarrow> string \<Rightarrow> string list" where
  "split_acc cur [] = (if cur = [] then [] else [cur])"
| "split_acc cur (c # cs) =
     (if isspace c then (if cur = [] then split_acc [] cs else cur # split_acc [] cs)
      else split_acc (cur @ [c]) cs)"

definition split :: "string \<Rightarrow> string list" where
  "split s = split_acc [] s"

text \<open>\<open>s.split(sep)\<close> for a one-character separator: never empty, empty pieces kept.\<close>

fun split_on_acc :: "char \<Rightarrow> string \<Rightarrow> string \<Rightarrow> string list" where
  "split_on_acc sep cur [] = [cur]"
| "split_on_acc sep cur (c # cs) =
     (if c = sep then cur # split_on_acc sep [] cs else split_on_acc sep (cur @ [c]) cs)"

definition split_on :: "char \<Rightarrow> string \<Rightarrow> string list" where
  "split_on sep s = split_on_acc sep [] s"

text \<open>
  \<open>int(s)\<close> in base ten, on ASCII text. The whitespace that \<open>int\<close> ignores around the
  number is that of the C locale (blank, tab, line feed, vertical tab, form feed and
  carriage return), a smaller set than that of \<open>str.isspace\<close>. One sign may lead, and
  the digits may be grouped by single underscores. A number of more than 4300 digits is
  refused (the interpreter's default bound). \<open>None\<close> stands for \<open>ValueError\<close>.
\<close>

definition isspace_c :: "char \<Rightarrow> bool" where
  "isspace_c c = (c \<in> set [CHR '' '', CHR 0x09, CHR 0x0A, CHR 0x0B, CHR 0x0C, CHR 0x0D])"

definition max_str_digits :: nat where
  "max_str_digits = 4300"

definition digit_val :: "char \<Rightarrow> nat option" where
  "digit_val c = map_of (zip ''0123456789'' [0, 1, 2, 3, 4, 5, 6, 7, 8, 9]) c"

fun int_digits :: "nat \<Rightarrow> string \<Rightarrow> nat option" where
  "int_digits acc [] = Some acc"
| "int_digits acc [c] =
     (case digit_val c of None \<Rightarrow> None | Some v \<Rightarrow> Some (10 * acc + v))"
| "int_digits acc (c # d # ds) =
     (if c = CHR ''_'' then
        (case digit_val d of None \<Rightarrow> None | Some v \<Rightarrow> int_digits (10 * acc + v) ds)
      else
        (case digit_val c of None \<Rightarrow> None | Some v \<Rightarrow> int_digits (10 * acc + v) (d # ds)))"

definition int_body :: "string \<Rightarrow> nat option" where
  "int_body s =
     (if max_str_digits < length (filter (\<lambda>c. c \<noteq> CHR ''_'') s) then None
      else case s of [] \<Rightarrow> None
           | c # cs \<Rightarrow> (case digit_val c of None \<Rightarrow> None | Some v \<Rightarrow> int_digits v cs))"

definition strip_c :: "string \<Rightarrow> string" where
  "strip_c s = rev (dropWhile isspace_c (rev (dropWhile isspace_c s)))"

definition py_int :: "string \<Rightarrow> int option" where
  "py_int s =
     (case strip_c s of [] \<Rightarrow> None
      | c # cs \<Rightarrow>
          if c = CHR ''-'' then map_option (\<lambda>n. - int n) (int_body cs)
          else if c = CHR ''+'' then map_option int (int_body cs)
          else map_option int (int_body (c # cs)))"

text \<open>\<open>xs[:k]\<close>: a negative \<open>k\<close> counts from the end.\<close>

definition slice_to :: "'a list \<Rightarrow> int \<Rightarrow> 'a list" where
  "slice_to xs k = (if 0 \<le> k then take (nat k) xs else take (nat (int (length xs) + k)) xs)"

text \<open>
  \<open>xs.sort(key=f, reverse=True)\<close>: descending by key and stable, records with equal
  keys keeping their order.
\<close>

definition sort_reverse :: "('a \<Rightarrow> 'k::linorder) \<Rightarrow> 'a list \<Rightarrow> 'a list" where
  "sort_reverse f xs = rev (sort_key f (rev xs))"

text \<open>Truth value of an \<open>Optional[str]\<close>: \<open>None\<close> and the empty string are false.\<close>

definition truthy :: "string option \<Rightarrow> bool" where
  "truthy v = (case v of None \<Rightarrow> False | Some s \<Rightarrow> s \<noteq> '''')"

section \<open>Record model\<close>

text \<open>
  The dataclass \<open>Paper\<close> of \<open>paper_sources.py\<close>. Its fields \<open>fields\<close> and \<open>keywords\<close>
  are \<open>paper_fields\<close> and \<open>paper_keywords\<close> here. Scores are floats in the program and
  reals here.
\<close>

record paper =
  title :: string
  authors :: "string list"
  abstract :: string
  year :: "int option"
  doi :: "string option"
  url :: "string option"
  pdf_url :: "string option"
  source :: string
  citations :: int
  venue :: "string option"
  arxiv_id :: "string option"
  paper_fields :: "string list"
  paper_keywords :: "string list"
  relevance_score :: real
  embedding :: "real list option"

section \<open>Aggregator: deduplication\<close>

text \<open>
  \<open>PaperAggregator._deduplicate\<close>: the loop's variables are the state, one step is one
  pass through the loop body, and each \<open>continue\<close> leaves the state as it is at
  that point.
\<close>

record dedup_state =
  seen_ids :: "string set"
  seen_titles :: "string set"
  unique_papers :: "paper list"

definition dedup_step :: "paper \<Rightarrow> dedup_state \<Rightarrow> dedup_state" where
  "dedup_step p st =
     (if truthy (doi p) \<and> the (doi p) \<in> seen_ids st then st
      else
        let st1 = (if truthy (doi p) then st\<lparr>seen_ids := insert (the (doi p)) (seen_ids st)\<rparr>
                   else st)
        in if truthy (arxiv_id p) \<and> the (arxiv_id p) \<in> seen_ids st1 then st1
           else
             let st2 = (if truthy (arxiv_id p)
                        then st1\<lparr>seen_ids := insert (the (arxiv_id p)) (seen_ids st1)\<rparr>
                        else st1);
                 normalized_title = strip (lower (title p))
             in if normalized_title \<in> seen_titles st2 then st2
                else st2\<lparr>seen_titles := insert normalized_title (seen_titles st2),
                         unique_papers := unique_papers st2 @ [p]\<rparr>)"

definition dedup_init :: dedup_state where
  "dedup_init = \<lparr>seen_ids = {}, seen_titles = {}, unique_papers = []\<rparr>"

definition deduplicate :: "paper list \<Rightarrow> paper list" where
  "deduplicate papers = unique_papers (fold dedup_step papers dedup_init)"

text \<open>
  The identity rule in the specification's words: two records are the same document
  when both carry a non-empty DOI and the DOIs match, or both carry a non-empty archive
  identifier and these match, or their normalized titles are equal.
\<close>

definition same_document :: "paper \<Rightarrow> paper \<Rightarrow> bool" where
  "same_document a b =
     ((truthy (doi a) \<and> doi a = doi b) \<or>
      (truthy (arxiv_id a) \<and> arxiv_id a = arxiv_id b) \<or>
      strip (lower (title a)) = strip (lower (title b)))"

text \<open>
  The constructor of \<open>Paper\<close> with the defaults of the dataclass: title, authors and
  abstract are given, every other field has its default.
\<close>

definition Paper :: "string \<Rightarrow> string list \<Rightarrow> string \<Rightarrow> paper" where
  "Paper t as ab =
     \<lparr>title = t, authors = as, abstract = ab, year = None, doi = None, url = None,
      pdf_url = None, source = '''', citations = 0, venue = None, arxiv_id = None,
      paper_fields = [], paper_keywords = [], relevance_score = 0, embedding = None\<rparr>"

text \<open>
  A record is fresh after the records \<open>xs\<close> when none of its identifiers is an
  identifier of a record of \<open>xs\<close> (DOI and archive identifier taken as one pool of
  strings, as the program's one set of seen identifiers does), its normalized title is
  the normalized title of none of them, and its own DOI and archive identifier are not
  one string.
\<close>

definition identifiers :: "paper \<Rightarrow> string set" where
  "identifiers p =
     (if truthy (doi p) then {the (doi p)} else {}) \<union>
     (if truthy (arxiv_id p) then {the (arxiv_id p)} else {})"

definition fresh :: "paper list \<Rightarrow> paper \<Rightarrow> bool" where
  "fresh xs b =
     ((\<forall>u \<in> set xs. identifiers u \<inter> identifiers b = {} \<and>
                     strip (lower (title u)) \<noteq> strip (lower (title b))) \<and>
      \<not> (truthy (doi b) \<and> arxiv_id b = doi b))"

section \<open>Relevance ranker\<close>

text \<open>
  \<open>AISearchEngine\<close>. The embedding service is outside the program: a configured client
  is the table of its answers during one ranking, by the number of the call and the text
  sent, where \<open>None\<close> is a call that raises. \<open>cosine_similarity\<close> comes from a numeric
  library and is carried with the engine; the vectors of one service have one length, so
  it always returns a number.
\<close>

type_synonym embedding_vector = "real list"

record engine =
  client :: "(nat \<Rightarrow> string \<Rightarrow> embedding_vector option) option"
  cosine_similarity :: "embedding_vector \<Rightarrow> embedding_vector \<Rightarrow> real"

definition get_embedding :: "engine \<Rightarrow> nat \<Rightarrow> string \<Rightarrow> embedding_vector option" where
  "get_embedding eng n text =
     (case client eng of None \<Rightarrow> None | Some c \<Rightarrow> c n (take 8000 text))"

definition compute_paper_embedding :: "engine \<Rightarrow> nat \<Rightarrow> paper \<Rightarrow> embedding_vector option" where
  "compute_paper_embedding eng n p =
     get_embedding eng n (title p @ [CHR 0x0A, CHR 0x0A] @ abstract p)"

text \<open>Truth value of an optional vector: \<open>None\<close> and the empty list are false.\<close>

definition truthy_vec :: "embedding_vector option \<Rightarrow> bool" where
  "truthy_vec v = (case v of None \<Rightarrow> False | Some e \<Rightarrow> e \<noteq> [])"

text \<open>\<open>if top_k: xs = xs[:top_k]\<close>: \<open>None\<close> and 0 are false.\<close>

definition truncate_top_k :: "'a list \<Rightarrow> int option \<Rightarrow> 'a list" where
  "truncate_top_k xs top_k =
     (case top_k of None \<Rightarrow> xs | Some k \<Rightarrow> if k \<noteq> 0 then slice_to xs k else xs)"

text \<open>\<open>AISearchEngine._rank_by_keywords\<close>.\<close>

definition keyword_score :: "string set \<Rightarrow> paper \<Rightarrow> real" where
  "keyword_score query_words p =
     (let text = lower (title p @ '' '' @ abstract p);
          word_count = (\<Sum>word \<in> query_words. if sublist word text then 1 else 0 :: nat)
      in if query_words \<noteq> {} then real word_count / real (card query_words) else 0)"

definition rank_by_keywords :: "paper list \<Rightarrow> string \<Rightarrow> int option \<Rightarrow> paper list" where
  "rank_by_keywords papers query top_k =
     (let query_words = set (split (lower query));
          scored = map (\<lambda>p. p\<lparr>relevance_score := keyword_score query_words p\<rparr>) papers;
          sorted = sort_reverse (\<lambda>p. (relevance_score p, citations p)) scored
      in truncate_top_k sorted top_k)"

text \<open>
  \<open>AISearchEngine.rank_papers_by_query\<close>. The loop over the papers carries the number
  of the next call to the service; the query is call 0.
\<close>

fun rank_loop :: "engine \<Rightarrow> embedding_vector \<Rightarrow> nat \<Rightarrow> paper list \<Rightarrow> paper list" where
  "rank_loop eng query_vec n [] = []"
| "rank_loop eng query_vec n (p # ps) =
     (if abstract p = '''' then p\<lparr>relevance_score := 0\<rparr> # rank_loop eng query_vec n ps
      else
        let paper_embedding = compute_paper_embedding eng n p
        in (if truthy_vec paper_embedding
            then p\<lparr>embedding := paper_embedding,
                   relevance_score := cosine_similarity eng query_vec (the paper_embedding)\<rparr>
            else p\<lparr>relevance_score := 0\<rparr>)
           # rank_loop eng query_vec (Suc n) ps)"

definition rank_papers_by_query :: "engine \<Rightarrow> paper list \<Rightarrow> string \<Rightarrow> int option \<Rightarrow> paper list" where
  "rank_papers_by_query eng papers query top_k =
     (if client eng = None then rank_by_keywords papers query top_k
      else
        let query_embedding = get_embedding eng 0 query
        in if \<not> truthy_vec query_embedding then rank_by_keywords papers query top_k
           else
             let ranked_papers = rank_loop eng (the query_embedding) 1 papers;
                 sorted = sort_reverse relevance_score ranked_papers
             in truncate_top_k sorted top_k)"

text \<open>
  The Tier-2 score in the specification's words: the number of distinct lowercase
  whitespace-delimited query words that occur as substrings of the lowercased title and
  abstract, divided by the number of distinct query words; 0 when there is no word.
\<close>

definition query_word_set :: "string \<Rightarrow> string set" where
  "query_word_set query = set (split (lower query))"

definition spec_keyword_score :: "string \<Rightarrow> paper \<Rightarrow> real" where
  "spec_keyword_score query p =
     (if query_word_set query = {} then 0
      else real (card {w \<in> query_word_set query.
                        sublist w (lower (title p @ '' '' @ abstract p))})
           / real (card (query_word_set query)))"

section \<open>Filter engine\<close>

text \<open>
  \<open>MultiDimensionalFilter.filter\<close>; its keyword arguments are one record, the argument
  \<open>fields\<close> being \<open>filter_fields\<close>. \<open>default_args\<close> holds the defaults of the signature.
\<close>

record filter_args =
  year_range :: "(int \<times> int) option"
  min_citations :: int
  max_citations :: "int option"
  filter_fields :: "string list option"
  has_pdf :: bool
  semantic_query :: "string option"
  semantic_threshold :: real
  author_contains :: "string option"
  venue_contains :: "string option"

definition default_args :: filter_args where
  "default_args =
     \<lparr>year_range = None, min_citations = 0, max_citations = None, filter_fields = None,
      has_pdf = False, semantic_query = None, semantic_threshold = 1 / 2,
      author_contains = None, venue_contains = None\<rparr>"

definition year_ok :: "int \<times> int \<Rightarrow> paper \<Rightarrow> bool" where
  "year_ok r p =
     (case year p of None \<Rightarrow> False
      | Some y \<Rightarrow> y \<noteq> 0 \<and> fst r \<le> y \<and> y \<le> snd r)"

definition field_ok :: "string list \<Rightarrow> paper \<Rightarrow> bool" where
  "field_ok fields_lower p =
     list_ex (\<lambda>f. lower f \<in> set fields_lower \<or>
                  list_ex (\<lambda>fl. sublist fl (lower f)) fields_lower)
       (paper_fields p)"

definition author_ok :: "string \<Rightarrow> paper \<Rightarrow> bool" where
  "author_ok author_query p = list_ex (\<lambda>a. sublist author_query (lower a)) (authors p)"

definition venue_ok :: "string \<Rightarrow> paper \<Rightarrow> bool" where
  "venue_ok venue_query p = (truthy (venue p) \<and> sublist venue_query (lower (the (venue p))))"

definition filter_papers :: "engine \<Rightarrow> paper list \<Rightarrow> filter_args \<Rightarrow> paper list" where
  "filter_papers ai_engine papers args =
     (let filtered = papers;
          filtered = (case year_range args of None \<Rightarrow> filtered
                      | Some r \<Rightarrow> filter (year_ok r) filtered);
          filtered = (if min_citations args > 0
                      then filter (\<lambda>p. citations p \<ge> min_citations args) filtered
                      else filtered);
          filtered = (case max_citations args of None \<Rightarrow> filtered
                      | Some m \<Rightarrow> filter (\<lambda>p. citations p \<le> m) filtered);
          filtered = (case filter_fields args of None \<Rightarrow> filtered
                      | Some fs \<Rightarrow> if fs \<noteq> [] then filter (field_ok (map lower fs)) filtered
                                  else filtered);
          filtered = (if has_pdf args then filter (\<lambda>p. truthy (pdf_url p)) filtered
                      else filtered);
          filtered = (if truthy (author_contains args)
                      then filter (author_ok (lower (the (author_contains args)))) filtered
                      else filtered);
          filtered = (if truthy (venue_contains args)
                      then filter (venue_ok (lower (the (venue_contains args)))) filtered
                      else filtered)
      in if truthy (semantic_query args) \<and> client ai_engine \<noteq> None
         then filter (\<lambda>p. relevance_score p \<ge> semantic_threshold args)
                (rank_papers_by_query ai_engine filtered (the (semantic_query args)) None)
         else filtered)"

section \<open>Source adapters\<close>

text \<open>
  \<open>SemanticScholarAPI.search\<close>, from the provider's answer on. The answer is what
  \<open>response.json()\<close> returns: any JSON value, as Python holds it. A number is an
  \<open>int\<close> or a \<open>float\<close>, and a \<open>float\<close> is finite, infinite or not a number. An
  object is the list of its members in the order of the text; of two members with one
  key the later one counts.
\<close>

datatype pyfloat = Finite real | PosInf | NegInf | NaN

datatype json =
    JNull
  | JBool bool
  | JInt int
  | JFloat pyfloat
  | JStr string
  | JArr "json list"
  | JObj "(string \<times> json) list"

text \<open>
  The two exceptions that the loop body can raise. Neither is a \<open>RequestException\<close>,
  so both leave \<open>search\<close> through its \<open>except\<close> clause. A result is the exception
  raised or the value returned.
\<close>

datatype error = AttributeError | TypeError

definition and_then :: "error + 'a \<Rightarrow> ('a \<Rightarrow> error + 'b) \<Rightarrow> error + 'b" where
  "and_then r f = (case r of Inl e \<Rightarrow> Inl e | Inr v \<Rightarrow> f v)"

text \<open>
  \<open>x.get(k, d)\<close>: only a \<open>dict\<close> has the method; a key that is present gives its
  value, also when that value is \<open>None\<close>.
\<close>

definition get :: "json \<Rightarrow> string \<Rightarrow> json \<Rightarrow> error + json" where
  "get x k d =
     (case x of
        JObj kvs \<Rightarrow> Inr (case map_of (rev kvs) k of None \<Rightarrow> d | Some v \<Rightarrow> v)
      | _ \<Rightarrow> Inl AttributeError)"

text \<open>Truth value of a JSON value, and \<open>x or d\<close>.\<close>

fun json_truthy :: "json \<Rightarrow> bool" where
  "json_truthy JNull = False"
| "json_truthy (JBool b) = b"
| "json_truthy (JInt n) = (n \<noteq> 0)"
| "json_truthy (JFloat f) = (f \<noteq> Finite 0)"
| "json_truthy (JStr s) = (s \<noteq> [])"
| "json_truthy (JArr xs) = (xs \<noteq> [])"
| "json_truthy (JObj kvs) = (kvs \<noteq> [])"

definition or_else :: "json \<Rightarrow> json \<Rightarrow> json" where
  "or_else x d = (if json_truthy x then x else d)"

text \<open>
  \<open>for a in x\<close>: a list gives its elements, a string its characters, a \<open>dict\<close> its
  keys in the order of their first occurrence; nothing else can be iterated.
\<close>

fun iter :: "json \<Rightarrow> error + json list" where
  "iter (JArr xs) = Inr xs"
| "iter (JStr s) = Inr (map (\<lambda>c. JStr [c]) s)"
| "iter (JObj kvs) = Inr (map JStr (rev (remdups (rev (map fst kvs)))))"
| "iter JNull = Inl TypeError"
| "iter (JBool b) = Inl TypeError"
| "iter (JInt n) = Inl TypeError"
| "iter (JFloat f) = Inl TypeError"

text \<open>
  \<open>x < n\<close> for an \<open>int\<close> \<open>n\<close>: numbers compare by value, \<open>True\<close> and \<open>False\<close> are 1
  and 0, nothing is below not-a-number, and any other operand raises \<open>TypeError\<close>.
\<close>

fun less_int :: "json \<Rightarrow> int \<Rightarrow> error + bool" where
  "less_int (JInt k) n = Inr (k < n)"
| "less_int (JBool b) n = Inr ((if b then 1 else 0) < n)"
| "less_int (JFloat f) n =
     Inr (case f of Finite x \<Rightarrow> x < of_int n | NegInf \<Rightarrow> True | PosInf \<Rightarrow> False | NaN \<Rightarrow> False)"
| "less_int JNull n = Inl TypeError"
| "less_int (JStr s) n = Inl TypeError"
| "less_int (JArr xs) n = Inl TypeError"
| "less_int (JObj kvs) n = Inl TypeError"

text \<open>
  A list comprehension \<open>[f(a) for a in xs]\<close>: the first element at which \<open>f\<close> raises
  ends it.
\<close>

fun comprehension :: "('a \<Rightarrow> error + 'b) \<Rightarrow> 'a list \<Rightarrow> error + 'b list" where
  "comprehension f [] = Inr []"
| "comprehension f (x # xs) =
     and_then (f x) (\<lambda>y. and_then (comprehension f xs) (\<lambda>ys. Inr (y # ys)))"

text \<open>
  The \<open>Paper\<close> that the adapter builds. The dataclass does not check its fields, so
  the record holds the JSON values as the item has them: a title that is null in the
  item is \<open>None\<close> in the record. The last three fields have their defaults.
\<close>

record raw_paper =
  raw_title :: json
  raw_authors :: "json list"
  raw_abstract :: json
  raw_year :: json
  raw_doi :: json
  raw_arxiv_id :: json
  raw_url :: json
  raw_pdf_url :: json
  raw_source :: string
  raw_citations :: json
  raw_venue :: json
  raw_fields :: "json list"
  raw_keywords :: "string list"
  raw_relevance_score :: real
  raw_embedding :: "real list option"

text \<open>
  One pass through the loop body, statement by statement: \<open>None\<close> is the \<open>continue\<close>
  of an item below the citation threshold, \<open>Some\<close> the record appended. The arguments
  of \<open>Paper\<close> are evaluated in the order in which the call names them.
\<close>

definition ss_item :: "int \<Rightarrow> json \<Rightarrow> error + raw_paper option" where
  "ss_item min_cit item =
     and_then (get item ''citationCount'' (JInt 0)) (\<lambda>c.
     and_then (less_int (or_else c (JInt 0)) min_cit) (\<lambda>below.
     if below then Inr None
     else
     and_then (get item ''authors'' (JArr [])) (\<lambda>as.
     and_then (iter as) (\<lambda>as.
     and_then (comprehension (\<lambda>a. get a ''name'' (JStr '''')) as) (\<lambda>authors.
     and_then (get item ''fieldsOfStudy'' (JArr [])) (\<lambda>fs.
     and_then (iter (or_else fs (JArr []))) (\<lambda>fs.
     and_then (comprehension (\<lambda>f. get f ''category'' (JStr '''')) fs) (\<lambda>fields.
     and_then (get item ''externalIds'' (JObj [])) (\<lambda>e.
     and_then (get item ''openAccessPdf'' JNull) (\<lambda>pdf_info.
     and_then (if json_truthy pdf_info then get pdf_info ''url'' JNull else Inr JNull) (\<lambda>pdf_url.
     and_then (get item ''title'' (JStr '''')) (\<lambda>title.
     and_then (get item ''abstract'' (JStr '''')) (\<lambda>abstract.
     and_then (get item ''year'' JNull) (\<lambda>year.
     and_then (get (or_else e (JObj [])) ''DOI'' JNull) (\<lambda>doi.
     and_then (get (or_else e (JObj [])) ''ArXiv'' JNull) (\<lambda>arxiv_id.
     and_then (get item ''url'' (JStr '''')) (\<lambda>url.
     and_then (get item ''venue'' (JStr '''')) (\<lambda>venue.
     Inr (Some
       \<lparr>raw_title = title,
        raw_authors = authors,
        raw_abstract = or_else abstract (JStr ''''),
        raw_year = year,
        raw_doi = doi,
        raw_arxiv_id = arxiv_id,
        raw_url = url,
        raw_pdf_url = pdf_url,
        raw_source = ''semantic_scholar'',
        raw_citations = or_else c (JInt 0),
        raw_venue = venue,
        raw_fields = fields,
        raw_keywords = [],
        raw_relevance_score = 0,
        raw_embedding = None\<rparr>)))))))))))))))))))"

text \<open>
  The loop over the items: the first item at which the body raises ends the search,
  and the exception leaves \<open>search\<close>; the records appended before it are lost.
\<close>

fun ss_loop :: "int \<Rightarrow> json list \<Rightarrow> error + raw_paper list" where
  "ss_loop min_cit [] = Inr []"
| "ss_loop min_cit (item # items) =
     and_then (ss_item min_cit item) (\<lambda>r.
     and_then (ss_loop min_cit items) (\<lambda>papers.
     Inr (case r of None \<Rightarrow> papers | Some paper \<Rightarrow> paper # papers)))"

text \<open>
  \<open>RequestException\<close> is a request that fails: the exception of \<open>session.get\<close>, of
  \<open>raise_for_status\<close>, and of \<open>response.json()\<close> where the library raises its own
  decoding error. It is raised before the loop, so the empty list is returned.
\<close>

datatype response = RequestException | Json json

definition ss_search :: "int \<Rightarrow> response \<Rightarrow> error + raw_paper list" where
  "ss_search min_cit resp =
     (case resp of
        RequestException \<Rightarrow> Inr []
      | Json data \<Rightarrow>
          and_then (get data ''data'' (JArr [])) (\<lambda>items.
          and_then (iter items) (\<lambda>items.
          ss_loop min_cit items)))"

text \<open>
  The answers on which the search returns, written by their shape. \<open>field_or\<close> is the
  member of an object, or the default when the key is absent. A value is a series of
  objects when it can be iterated and every element is an object: a list of objects,
  or an empty string or object. An item reaches the threshold when its citation count,
  0 when absent, null or otherwise false, compares with the threshold and is not below
  it.
\<close>

definition field_or :: "json \<Rightarrow> string \<Rightarrow> json \<Rightarrow> json" where
  "field_or x k d =
     (case x of JObj kvs \<Rightarrow> (case map_of (rev kvs) k of None \<Rightarrow> d | Some v \<Rightarrow> v) | _ \<Rightarrow> d)"

fun is_obj :: "json \<Rightarrow> bool" where
  "is_obj (JObj kvs) = True"
| "is_obj _ = False"

definition objects :: "json \<Rightarrow> bool" where
  "objects x = (case iter x of Inl e \<Rightarrow> False | Inr xs \<Rightarrow> list_all is_obj xs)"

definition citation_count :: "json \<Rightarrow> json" where
  "citation_count item = or_else (field_or item ''citationCount'' (JInt 0)) (JInt 0)"

definition reaches :: "int \<Rightarrow> json \<Rightarrow> bool" where
  "reaches n item = (less_int (citation_count item) n = Inr False)"

definition item_ok :: "int \<Rightarrow> json \<Rightarrow> bool" where
  "item_ok n item =
     (is_obj item \<and>
      (less_int (citation_count item) n = Inr True \<or>
       reaches n item \<and>
       objects (field_or item ''authors'' (JArr [])) \<and>
       objects (or_else (field_or item ''fieldsOfStudy'' (JArr [])) (JArr [])) \<and>
       is_obj (or_else (field_or item ''externalIds'' (JObj [])) (JObj [])) \<and>
       (is_obj (field_or item ''openAccessPdf'' JNull) \<or>
        \<not> json_truthy (field_or item ''openAccessPdf'' JNull))))"

definition response_items :: "json \<Rightarrow> json list" where
  "response_items data =
     (case iter (field_or data ''data'' (JArr [])) of Inl e \<Rightarrow> [] | Inr items \<Rightarrow> items)"

definition response_ok :: "int \<Rightarrow> json \<Rightarrow> bool" where
  "response_ok n data =
     (is_obj data \<and>
      (case iter (field_or data ''data'' (JArr [])) of
         Inl e \<Rightarrow> False
       | Inr items \<Rightarrow> list_all (item_ok n) items))"

text \<open>
  \<open>ArxivAPI.search\<close>, from the results on: the list holds the results that the
  library's generator yields before it ends or raises, and the papers built up to
  there are returned in both cases.
\<close>

record arxiv_result =
  result_title :: string
  result_authors :: "string list"
  result_summary :: string
  result_published :: "int option"
  result_doi :: "string option"
  result_entry_id :: string
  result_pdf_url :: "string option"
  result_categories :: "string list"

definition arxiv_paper :: "arxiv_result \<Rightarrow> paper" where
  "arxiv_paper result =
     \<lparr>title = result_title result,
      authors = result_authors result,
      abstract = result_summary result,
      year = result_published result,
      doi = result_doi result,
      url = Some (result_entry_id result),
      pdf_url = result_pdf_url result,
      source = ''arxiv'',
      citations = 0,
      venue = Some ''arXiv'',
      arxiv_id = Some (last (split_on CHR ''/'' (result_entry_id result))),
      paper_fields = result_categories result,
      paper_keywords = [],
      relevance_score = 0,
      embedding = None\<rparr>"

definition arxiv_search :: "arxiv_result list \<Rightarrow> paper list" where
  "arxiv_search results = map arxiv_paper results"

section \<open>Index selection\<close>

text \<open>
  \<open>_parse_indices\<close> of \<open>paper_finder.py\<close>. One step is one pass through the loop over
  the comma-separated parts: a part with a hyphen must split into exactly two integers
  (anything else raises \<open>ValueError\<close> and the part is skipped), another part must be an
  integer.
\<close>

definition parse_step :: "string \<Rightarrow> int set \<Rightarrow> int set" where
  "parse_step part0 selected =
     (let part = strip part0
      in if CHR ''-'' \<in> set part then
           (case map py_int (split_on CHR ''-'' part) of
              [Some start, Some end] \<Rightarrow> selected \<union> set [start..end]
            | _ \<Rightarrow> selected)
         else
           (case py_int part of Some n \<Rightarrow> insert n selected | None \<Rightarrow> selected))"

definition parse_indices :: "'a list \<Rightarrow> string \<Rightarrow> 'a list" where
  "parse_indices papers indices_str =
     (if lower indices_str = ''all'' then papers
      else
        let selected = fold parse_step (split_on CHR '','' indices_str) {}
        in map (\<lambda>i. papers ! nat (i - 1))
             (filter (\<lambda>i. 1 \<le> i \<and> i \<le> int (length papers)) (sorted_list_of_set selected)))"

text \<open>
  The selection in the specification's words, written without the program's parser.

  A decimal numeral is a digit, or a numeral followed by a digit, or a numeral followed
  by one underscore and a digit; a further digit multiplies the value by ten and adds
  the digit. An integer literal is such a numeral of at most 4300 digits, after an
  optional sign, with C-locale whitespace (the characters 9 to 13 and 32) around it.
  A number is an integer literal written without a minus sign.

  A token, with the whitespace around it removed, names the position \<open>N\<close> when it is
  the number \<open>N\<close>, and the positions from \<open>N\<close> to \<open>M\<close> when it is \<open>N-M\<close> for two
  numbers; any other token names nothing. The selection string \<open>all\<close>, in any case,
  names every position of the list.
\<close>

definition is_digit :: "char \<Rightarrow> bool" where
  "is_digit c = (c \<in> set ''0123456789'')"

definition digit_of :: "char \<Rightarrow> nat" where
  "digit_of c = length (takeWhile (\<lambda>d. d \<noteq> c) ''0123456789'')"

inductive decimal_numeral :: "string \<Rightarrow> nat \<Rightarrow> bool" where
  one: "is_digit c \<Longrightarrow> decimal_numeral [c] (digit_of c)"
| more: "decimal_numeral b v \<Longrightarrow> is_digit c \<Longrightarrow>
         decimal_numeral (b @ [c]) (10 * v + digit_of c)"
| grouped: "decimal_numeral b v \<Longrightarrow> is_digit c \<Longrightarrow>
            decimal_numeral (b @ ''_'' @ [c]) (10 * v + digit_of c)"

definition blank_c :: "string \<Rightarrow> bool" where
  "blank_c w = (\<forall>c \<in> set w. (of_char c :: nat) \<in> {9..13} \<union> {32})"

definition int_literal :: "string \<Rightarrow> int \<Rightarrow> bool" where
  "int_literal s n =
     (\<exists>w1 sg b w2 v. s = w1 @ sg @ b @ w2 \<and> blank_c w1 \<and> blank_c w2 \<and>
        sg \<in> {'''', ''+'', ''-''} \<and> decimal_numeral b v \<and>
        length (filter is_digit b) \<le> 4300 \<and>
        n = (if sg = ''-'' then - int v else int v))"

definition number_token :: "string \<Rightarrow> int \<Rightarrow> bool" where
  "number_token t n = (CHR ''-'' \<notin> set t \<and> int_literal t n)"

definition token_positions :: "string \<Rightarrow> int set" where
  "token_positions tok =
     {i. number_token (strip tok) i} \<union>
     {i. \<exists>l r a b. strip tok = l @ ''-'' @ r \<and> number_token l a \<and> number_token r b \<and>
                    a \<le> i \<and> i \<le> b}"

definition named_positions :: "string \<Rightarrow> nat \<Rightarrow> int set" where
  "named_positions s n =
     (if lower s = ''all'' then {1..int n}
      else {i. 1 \<le> i \<and> i \<le> int n \<and> (\<exists>tok \<in> set (split_on CHR '','' s). i \<in> token_positions tok)})"

section \<open>Invariants of the loops\<close>

text \<open>
  A kept record is recorded in the identity index: its identifiers, when it has them,
  are among the seen identifiers, and its normalized title is among the seen titles.
\<close>

definition recorded :: "dedup_state \<Rightarrow> paper \<Rightarrow> bool" where
  "recorded st u =
     ((truthy (doi u) \<longrightarrow> the (doi u) \<in> seen_ids st) \<and>
      (truthy (arxiv_id u) \<longrightarrow> the (arxiv_id u) \<in> seen_ids st) \<and>
      strip (lower (title u)) \<in> seen_titles st)"

section \<open>Deduplication\<close>

lemma dedup_step_unique:
  "unique_papers (dedup_step p st) = unique_papers st \<or>
   unique_papers (dedup_step p st) = unique_papers st @ [p]"
  by (simp add: dedup_step_def Let_def)

lemma dedup_step_seen_ids: "seen_ids st \<subseteq> seen_ids (dedup_step p st)"
  by (auto simp: dedup_step_def Let_def)

lemma dedup_step_seen_titles: "seen_titles st \<subseteq> seen_titles (dedup_step p st)"
  by (auto simp: dedup_step_def Let_def)

lemma dedup_step_doi_seen:
  "truthy (doi p) \<Longrightarrow> the (doi p) \<in> seen_ids (dedup_step p st)"
  by (auto simp: dedup_step_def Let_def)

lemma recorded_step: "recorded st u \<Longrightarrow> recorded (dedup_step p st) u"
  using dedup_step_seen_ids [of st p] dedup_step_seen_titles [of st p]
  by (auto simp: recorded_def)

lemma recorded_new:
  "unique_papers (dedup_step p st) = unique_papers st @ [p] \<Longrightarrow> recorded (dedup_step p st) p"
  by (auto simp: dedup_step_def Let_def recorded_def split: if_splits)

lemma recorded_fold:
  "\<forall>u \<in> set (unique_papers (fold dedup_step xs dedup_init)).
      recorded (fold dedup_step xs dedup_init) u"
proof (induction xs rule: rev_induct)
  case Nil
  show ?case by (simp add: dedup_init_def)
next
  case (snoc x xs)
  let ?st = "fold dedup_step xs dedup_init"
  from dedup_step_unique [of x ?st] show ?case
  proof
    assume "unique_papers (dedup_step x ?st) = unique_papers ?st"
    with snoc show ?thesis by (auto intro: recorded_step)
  next
    assume a: "unique_papers (dedup_step x ?st) = unique_papers ?st @ [x]"
    with snoc recorded_new [OF a] show ?thesis by (auto intro: recorded_step)
  qed
qed

lemma dedup_step_drops:
  "recorded st a \<Longrightarrow> same_document a b \<Longrightarrow> unique_papers (dedup_step b st) = unique_papers st"
  by (auto simp: dedup_step_def Let_def recorded_def same_document_def)

lemma dedup_discards_duplicate_of_kept:
  assumes "a \<in> set (deduplicate xs)" "same_document a b"
  shows "deduplicate (xs @ [b]) = deduplicate xs"
  using assms recorded_fold [of xs] dedup_step_drops [of "fold dedup_step xs dedup_init" a b]
  by (auto simp: deduplicate_def)

lemma doi_seen_fold:
  "p \<in> set xs \<Longrightarrow> truthy (doi p) \<Longrightarrow> the (doi p) \<in> seen_ids (fold dedup_step xs st)"
proof (induction xs arbitrary: st rule: rev_induct)
  case Nil
  then show ?case by simp
next
  case (snoc x xs)
  then show ?case
    using dedup_step_seen_ids [of "fold dedup_step xs st" x]
      dedup_step_doi_seen [of x "fold dedup_step xs st"]
    by auto
qed

lemma dedup_step_doi_drops:
  "truthy (doi b) \<Longrightarrow> the (doi b) \<in> seen_ids st \<Longrightarrow>
   unique_papers (dedup_step b st) = unique_papers st"
  by (simp add: dedup_step_def)

lemma dedup_discards_later_doi:
  assumes "a \<in> set xs" "truthy (doi a)" "doi b = doi a"
  shows "deduplicate (xs @ [b]) = deduplicate xs"
  using assms doi_seen_fold [of a xs dedup_init]
    dedup_step_doi_drops [of b "fold dedup_step xs dedup_init"]
  by (auto simp: deduplicate_def)

lemma dedup_pairwise:
  "sorted_wrt (\<lambda>a b. \<not> same_document a b) (deduplicate xs)"
proof (induction xs rule: rev_induct)
  case Nil
  show ?case by (simp add: deduplicate_def dedup_init_def)
next
  case (snoc x xs)
  let ?st = "fold dedup_step xs dedup_init"
  from dedup_step_unique [of x ?st] show ?case
  proof
    assume "unique_papers (dedup_step x ?st) = unique_papers ?st"
    with snoc show ?thesis by (simp add: deduplicate_def)
  next
    assume a: "unique_papers (dedup_step x ?st) = unique_papers ?st @ [x]"
    have "\<not> same_document u x" if "u \<in> set (unique_papers ?st)" for u
    proof
      assume "same_document u x"
      with that recorded_fold [of xs] have "unique_papers (dedup_step x ?st) = unique_papers ?st"
        by (auto intro: dedup_step_drops)
      with a show False by simp
    qed
    with snoc a show ?thesis by (simp add: deduplicate_def sorted_wrt_append)
  qed
qed

lemma dedup_two_same_doi:
  assumes "truthy (doi a)" "doi b = doi a" "arxiv_id a \<noteq> doi a"
  shows "deduplicate [a, b] = [a]"
  using assms
  by (auto simp: deduplicate_def dedup_init_def dedup_step_def Let_def truthy_def split: option.splits)

lemma dedup_step_keeps_smaller:
  assumes "unique_papers (dedup_step p st) = unique_papers st @ [p]"
    and "seen_ids st' \<subseteq> seen_ids st" "seen_titles st' \<subseteq> seen_titles st"
  shows "unique_papers (dedup_step p st') = unique_papers st' @ [p] \<and>
         seen_ids (dedup_step p st') \<subseteq> seen_ids (dedup_step p st) \<and>
         seen_titles (dedup_step p st') \<subseteq> seen_titles (dedup_step p st)"
  using assms
  by (auto simp: dedup_step_def Let_def split: if_splits)

lemma dedup_rerun:
  "unique_papers (fold dedup_step (unique_papers (fold dedup_step xs dedup_init)) dedup_init)
     = unique_papers (fold dedup_step xs dedup_init) \<and>
   seen_ids (fold dedup_step (unique_papers (fold dedup_step xs dedup_init)) dedup_init)
     \<subseteq> seen_ids (fold dedup_step xs dedup_init) \<and>
   seen_titles (fold dedup_step (unique_papers (fold dedup_step xs dedup_init)) dedup_init)
     \<subseteq> seen_titles (fold dedup_step xs dedup_init)"
proof (induction xs rule: rev_induct)
  case Nil
  show ?case by (simp add: dedup_init_def)
next
  case (snoc x xs)
  let ?st = "fold dedup_step xs dedup_init"
  let ?st' = "fold dedup_step (unique_papers ?st) dedup_init"
  from dedup_step_unique [of x ?st] show ?case
  proof
    assume "unique_papers (dedup_step x ?st) = unique_papers ?st"
    with snoc dedup_step_seen_ids [of ?st x] dedup_step_seen_titles [of ?st x]
    show ?thesis by auto
  next
    assume a: "unique_papers (dedup_step x ?st) = unique_papers ?st @ [x]"
    from snoc have "seen_ids ?st' \<subseteq> seen_ids ?st" "seen_titles ?st' \<subseteq> seen_titles ?st"
      by simp_all
    from dedup_step_keeps_smaller [OF a this] snoc a show ?thesis by simp
  qed
qed

text \<open>What the index can hold, and when a record is kept.\<close>

lemma dedup_step_seen_ids_bound:
  "seen_ids (dedup_step p st) \<subseteq> seen_ids st \<union> identifiers p"
  by (auto simp: dedup_step_def Let_def identifiers_def)

lemma dedup_step_seen_titles_bound:
  "seen_titles (dedup_step p st) \<subseteq> insert (strip (lower (title p))) (seen_titles st)"
  by (auto simp: dedup_step_def Let_def)

lemma seen_bound_fold:
  "seen_ids (fold dedup_step xs dedup_init) \<subseteq> (\<Union>u \<in> set xs. identifiers u) \<and>
   seen_titles (fold dedup_step xs dedup_init) \<subseteq> (\<lambda>u. strip (lower (title u))) ` set xs"
proof (induction xs rule: rev_induct)
  case Nil
  show ?case by (simp add: dedup_init_def)
next
  case (snoc x xs)
  let ?st = "fold dedup_step xs dedup_init"
  from snoc dedup_step_seen_ids_bound [of x ?st]
  have "seen_ids (dedup_step x ?st) \<subseteq> (\<Union>u \<in> set (xs @ [x]). identifiers u)"
    by auto
  moreover from snoc dedup_step_seen_titles_bound [of x ?st]
  have "seen_titles (dedup_step x ?st) \<subseteq> (\<lambda>u. strip (lower (title u))) ` set (xs @ [x])"
    by auto
  ultimately show ?case by simp
qed

lemma dedup_step_keeps_fresh:
  assumes "truthy (doi b) \<longrightarrow> the (doi b) \<notin> seen_ids st"
    and "truthy (arxiv_id b) \<longrightarrow> the (arxiv_id b) \<notin> seen_ids st"
    and "strip (lower (title b)) \<notin> seen_titles st"
    and "\<not> (truthy (doi b) \<and> arxiv_id b = doi b)"
  shows "unique_papers (dedup_step b st) = unique_papers st @ [b]"
  using assms
  by (auto simp: dedup_step_def Let_def truthy_def split: option.splits)

lemma dedup_keeps_fresh:
  assumes "fresh xs b"
  shows "deduplicate (xs @ [b]) = deduplicate xs @ [b]"
proof -
  let ?st = "fold dedup_step xs dedup_init"
  from assms have f: "\<forall>u \<in> set xs. identifiers u \<inter> identifiers b = {}"
      "\<forall>u \<in> set xs. strip (lower (title u)) \<noteq> strip (lower (title b))"
      "\<not> (truthy (doi b) \<and> arxiv_id b = doi b)"
    by (simp_all add: fresh_def)
  from f(1) seen_bound_fold [of xs] have ids: "seen_ids ?st \<inter> identifiers b = {}"
    by blast
  have "strip (lower (title b)) \<notin> seen_titles ?st"
  proof
    assume "strip (lower (title b)) \<in> seen_titles ?st"
    with seen_bound_fold [of xs]
    have "strip (lower (title b)) \<in> (\<lambda>u. strip (lower (title u))) ` set xs"
      by (rule_tac subsetD) (erule conjunct2)
    then obtain u where "u \<in> set xs" "strip (lower (title b)) = strip (lower (title u))"
      by (rule imageE)
    with f(2) show False by auto
  qed
  moreover from ids have "truthy (doi b) \<longrightarrow> the (doi b) \<notin> seen_ids ?st"
    by (auto simp: identifiers_def)
  moreover from ids have "truthy (arxiv_id b) \<longrightarrow> the (arxiv_id b) \<notin> seen_ids ?st"
    by (auto simp: identifiers_def)
  ultimately have "unique_papers (dedup_step b ?st) = unique_papers ?st @ [b]"
    using f(3) by (intro dedup_step_keeps_fresh)
  then show ?thesis by (simp add: deduplicate_def)
qed

lemma dedup_prefix: "prefix (deduplicate xs) (deduplicate (xs @ ys))"
proof (induction ys rule: rev_induct)
  case Nil
  show ?case by simp
next
  case (snoc y ys)
  let ?st = "fold dedup_step (xs @ ys) dedup_init"
  from dedup_step_unique [of y ?st]
  have "prefix (unique_papers ?st) (unique_papers (dedup_step y ?st))"
    by auto
  with snoc show ?case
    by (simp add: deduplicate_def)
qed

lemma dedup_first_of_pair:
  assumes "fresh xs a" "same_document a b"
  shows "a \<in> set (deduplicate (xs @ a # ys)) \<and>
         deduplicate (xs @ a # ys @ [b]) = deduplicate (xs @ a # ys)"
proof -
  from assms(1) have "deduplicate (xs @ [a]) = deduplicate xs @ [a]"
    by (rule dedup_keeps_fresh)
  then have "a \<in> set (deduplicate (xs @ [a]))" by simp
  moreover from dedup_prefix [of "xs @ [a]" ys]
  have "set (deduplicate (xs @ [a])) \<subseteq> set (deduplicate (xs @ a # ys))"
    by (auto simp: prefix_def)
  ultimately have kept: "a \<in> set (deduplicate (xs @ a # ys))" by blast
  from dedup_discards_duplicate_of_kept [OF kept assms(2)] kept show ?thesis by simp
qed

text \<open>
  Claim C1, as the code has it. The first record wins when it is fresh: a record that
  is fresh after the records before it is kept, a kept record stays in the output
  whatever arrives later, and every later record that is the same document as it is
  discarded. In general, a record that is the same document as a record kept so far is
  discarded when it arrives, a record whose non-empty DOI was carried by any earlier
  record is discarded whether that record was kept or not, and no two kept records are
  the same document. Of two records with one non-empty DOI and different titles only
  the first survives, provided the first's archive identifier is not the same string as
  its DOI. (A record that duplicates only a discarded record by archive identifier or
  title can be kept: the index holds what was seen up to the point where the earlier
  record was dropped.)
\<close>

theorem dedup_first_kept_wins:
  "(a \<in> set (deduplicate xs) \<and> same_document a b \<longrightarrow> deduplicate (xs @ [b]) = deduplicate xs) \<and>
   (c \<in> set xs \<and> truthy (doi c) \<and> doi d = doi c \<longrightarrow> deduplicate (xs @ [d]) = deduplicate xs) \<and>
   (\<forall>i j. i < j \<and> j < length (deduplicate xs) \<longrightarrow>
          \<not> same_document (deduplicate xs ! i) (deduplicate xs ! j)) \<and>
   (truthy (doi p) \<and> doi q = doi p \<and> title p \<noteq> title q \<and> arxiv_id p \<noteq> doi p \<longrightarrow>
      deduplicate [p, q] = [p]) \<and>
   (fresh xs e \<longrightarrow> deduplicate (xs @ [e]) = deduplicate xs @ [e]) \<and>
   prefix (deduplicate xs) (deduplicate (xs @ ys)) \<and>
   (fresh xs f \<and> same_document f g \<longrightarrow>
      f \<in> set (deduplicate (xs @ f # ys)) \<and>
      deduplicate (xs @ f # ys @ [g]) = deduplicate (xs @ f # ys))"
proof (intro conjI impI allI)
  assume "a \<in> set (deduplicate xs) \<and> same_document a b"
  then show "deduplicate (xs @ [b]) = deduplicate xs"
    using dedup_discards_duplicate_of_kept by blast
next
  assume "c \<in> set xs \<and> truthy (doi c) \<and> doi d = doi c"
  then show "deduplicate (xs @ [d]) = deduplicate xs"
    using dedup_discards_later_doi by blast
next
  fix i j
  assume "i < j \<and> j < length (deduplicate xs)"
  with dedup_pairwise [of xs]
  show "\<not> same_document (deduplicate xs ! i) (deduplicate xs ! j)"
    by (simp add: sorted_wrt_iff_nth_less)
next
  assume "truthy (doi p) \<and> doi q = doi p \<and> title p \<noteq> title q \<and> arxiv_id p \<noteq> doi p"
  then show "deduplicate [p, q] = [p]"
    by (simp add: dedup_two_same_doi)
next
  assume "fresh xs e"
  then show "deduplicate (xs @ [e]) = deduplicate xs @ [e]"
    by (rule dedup_keeps_fresh)
next
  show "prefix (deduplicate xs) (deduplicate (xs @ ys))"
    by (rule dedup_prefix)
next
  assume "fresh xs f \<and> same_document f g"
  then show "f \<in> set (deduplicate (xs @ f # ys))"
    using dedup_first_of_pair [of xs f g ys] by simp
next
  assume "fresh xs f \<and> same_document f g"
  then show "deduplicate (xs @ f # ys @ [g]) = deduplicate (xs @ f # ys)"
    using dedup_first_of_pair [of xs f g ys] by simp
qed

text \<open>Definitions unfolded when a concrete input is evaluated.\<close>

lemmas eval_defs = deduplicate_def dedup_init_def dedup_step_def Let_def truthy_def Paper_def
    strip_def lower_def lower_char_def isspace_def same_document_def

text \<open>
  Claim C1 as stated fails. The second record below is dropped for its DOI before its
  title is recorded, so the third, a duplicate of the second by title, is kept. And a
  first record whose DOI and archive identifier are one string is itself dropped.
\<close>

theorem dedup_later_duplicate_counterexample:
  "same_document ((Paper ''B'' [] [])\<lparr>doi := Some ''10.1/x''\<rparr>) (Paper ''B'' [] []) \<and>
   deduplicate [(Paper ''A'' [] [])\<lparr>doi := Some ''10.1/x''\<rparr>,
                (Paper ''B'' [] [])\<lparr>doi := Some ''10.1/x''\<rparr>,
                Paper ''B'' [] []]
     = [(Paper ''A'' [] [])\<lparr>doi := Some ''10.1/x''\<rparr>, Paper ''B'' [] []] \<and>
   deduplicate [(Paper ''A'' [] [])\<lparr>doi := Some ''x'', arxiv_id := Some ''x''\<rparr>,
                (Paper ''B'' [] [])\<lparr>doi := Some ''x''\<rparr>] = []"
  by (simp add: eval_defs)

text \<open>
  The scenario of the specification, with further arrivals: after the records \<open>A\<close>
  (DOI 10.1/x, 5 citations) and \<open>B\<close>, a record titled \<open>a\<close> with a trailing blank and
  a record \<open>C\<close> with the DOI of \<open>A\<close> are both discarded, and a record \<open>D\<close> with a
  DOI and a title of its own is kept. \<open>B\<close> is fresh after \<open>A\<close>: it stays when \<open>D\<close>
  arrives, and a later record titled \<open>b\<close> is discarded.
\<close>

theorem dedup_first_kept_wins_witness:
  "deduplicate ([(Paper ''A'' [] [])\<lparr>doi := Some ''10.1/x'', citations := 5\<rparr>,
                 (Paper ''B'' [] [])\<lparr>citations := 1\<rparr>]
                @ [(Paper ''a '' [] [])\<lparr>citations := 50\<rparr>])
     = [(Paper ''A'' [] [])\<lparr>doi := Some ''10.1/x'', citations := 5\<rparr>,
        (Paper ''B'' [] [])\<lparr>citations := 1\<rparr>] \<and>
   deduplicate ([(Paper ''A'' [] [])\<lparr>doi := Some ''10.1/x'', citations := 5\<rparr>,
                 (Paper ''B'' [] [])\<lparr>citations := 1\<rparr>]
                @ [(Paper ''C'' [] [])\<lparr>doi := Some ''10.1/x'', citations := 50\<rparr>])
     = [(Paper ''A'' [] [])\<lparr>doi := Some ''10.1/x'', citations := 5\<rparr>,
        (Paper ''B'' [] [])\<lparr>citations := 1\<rparr>] \<and>
   \<not> same_document
       (deduplicate [(Paper ''A'' [] [])\<lparr>doi := Some ''10.1/x'', citations := 5\<rparr>,
                     (Paper ''B'' [] [])\<lparr>citations := 1\<rparr>] ! 0)
       (deduplicate [(Paper ''A'' [] [])\<lparr>doi := Some ''10.1/x'', citations := 5\<rparr>,
                     (Paper ''B'' [] [])\<lparr>citations := 1\<rparr>] ! 1) \<and>
   deduplicate [(Paper ''A'' [] [])\<lparr>doi := Some ''10.1/x'', citations := 5\<rparr>,
                (Paper ''C'' [] [])\<lparr>doi := Some ''10.1/x'', citations := 50\<rparr>]
     = [(Paper ''A'' [] [])\<lparr>doi := Some ''10.1/x'', citations := 5\<rparr>] \<and>
   deduplicate ([(Paper ''A'' [] [])\<lparr>doi := Some ''10.1/x'', citations := 5\<rparr>,
                 (Paper ''B'' [] [])\<lparr>citations := 1\<rparr>]
                @ [(Paper ''D'' [] [])\<lparr>doi := Some ''10.2/y''\<rparr>])
     = [(Paper ''A'' [] [])\<lparr>doi := Some ''10.1/x'', citations := 5\<rparr>,
        (Paper ''B'' [] [])\<lparr>citations := 1\<rparr>,
        (Paper ''D'' [] [])\<lparr>doi := Some ''10.2/y''\<rparr>] \<and>
   prefix [(Paper ''A'' [] [])\<lparr>doi := Some ''10.1/x'', citations := 5\<rparr>]
     (deduplicate ([(Paper ''A'' [] [])\<lparr>doi := Some ''10.1/x'', citations := 5\<rparr>]
                   @ [(Paper ''B'' [] [])\<lparr>citations := 1\<rparr>,
                      (Paper ''D'' [] [])\<lparr>doi := Some ''10.2/y''\<rparr>])) \<and>
   (Paper ''B'' [] [])\<lparr>citations := 1\<rparr>
     \<in> set (deduplicate ([(Paper ''A'' [] [])\<lparr>doi := Some ''10.1/x'', citations := 5\<rparr>]
                          @ (Paper ''B'' [] [])\<lparr>citations := 1\<rparr>
                          # [(Paper ''D'' [] [])\<lparr>doi := Some ''10.2/y''\<rparr>])) \<and>
   deduplicate ([(Paper ''A'' [] [])\<lparr>doi := Some ''10.1/x'', citations := 5\<rparr>]
                @ (Paper ''B'' [] [])\<lparr>citations := 1\<rparr>
                # [(Paper ''D'' [] [])\<lparr>doi := Some ''10.2/y''\<rparr>]
                @ [(Paper ''b'' [] [])\<lparr>doi := Some ''10.3/z''\<rparr>])
     = deduplicate ([(Paper ''A'' [] [])\<lparr>doi := Some ''10.1/x'', citations := 5\<rparr>]
                    @ (Paper ''B'' [] [])\<lparr>citations := 1\<rparr>
                    # [(Paper ''D'' [] [])\<lparr>doi := Some ''10.2/y''\<rparr>])"
proof -
  let ?A = "(Paper ''A'' [] [])\<lparr>doi := Some ''10.1/x'', citations := 5\<rparr>"
  let ?B = "(Paper ''B'' [] [])\<lparr>citations := 1\<rparr>"
  let ?a = "(Paper ''a '' [] [])\<lparr>citations := 50\<rparr>"
  let ?C = "(Paper ''C'' [] [])\<lparr>doi := Some ''10.1/x'', citations := 50\<rparr>"
  let ?D = "(Paper ''D'' [] [])\<lparr>doi := Some ''10.2/y''\<rparr>"
  let ?b = "(Paper ''b'' [] [])\<lparr>doi := Some ''10.3/z''\<rparr>"
  have xs: "deduplicate [?A, ?B] = [?A, ?B]"
    by (simp add: eval_defs)
  have one: "deduplicate [?A] = [?A]"
    by (simp add: eval_defs)
  have dup: "same_document ?A ?a" "truthy (doi ?A)" "doi ?C = doi ?A" "title ?A \<noteq> title ?C"
    "arxiv_id ?A \<noteq> doi ?A"
    by (simp_all add: eval_defs)
  have fr: "fresh [?A, ?B] ?D" "fresh [?A] ?B" "same_document ?B ?b"
    by (simp_all add: fresh_def identifiers_def eval_defs)
  note t = dedup_first_kept_wins
    [where a = ?A and xs = "[?A, ?B]" and b = ?a and c = ?A and d = ?C and p = ?A and q = ?C
       and e = ?D]
  note u = dedup_first_kept_wins
    [where xs = "[?A]" and ys = "[?B, ?D]" and f = ?B and g = ?b]
  note v = dedup_first_kept_wins
    [where xs = "[?A]" and ys = "[?D]" and f = ?B and g = ?b]
  from t xs dup have 1: "deduplicate ([?A, ?B] @ [?a]) = [?A, ?B]" by simp
  from t xs dup have 2: "deduplicate ([?A, ?B] @ [?C]) = [?A, ?B]" by simp
  from t [THEN conjunct2, THEN conjunct2, THEN conjunct1, rule_format, of 0 1] xs
  have 3: "\<not> same_document (deduplicate [?A, ?B] ! 0) (deduplicate [?A, ?B] ! 1)"
    by simp
  from t dup have 4: "deduplicate [?A, ?C] = [?A]" by simp
  from t xs fr(1) have 5: "deduplicate ([?A, ?B] @ [?D]) = [?A, ?B, ?D]" by simp
  from u one have 6: "prefix [?A] (deduplicate ([?A] @ [?B, ?D]))" by simp
  from v fr(2,3) have 7: "?B \<in> set (deduplicate ([?A] @ ?B # [?D]))" by simp
  from v fr(2,3)
  have 8: "deduplicate ([?A] @ ?B # [?D] @ [?b]) = deduplicate ([?A] @ ?B # [?D])" by simp
  from 1 2 3 4 5 6 7 8 show ?thesis by (intro conjI)
qed

text \<open>
  Claim C2: deduplication is idempotent. Applied to its own output it returns that
  output, the same records in the same order.
\<close>

theorem dedup_idempotent: "deduplicate (deduplicate xs) = deduplicate xs"
  using dedup_rerun [of xs] by (simp add: deduplicate_def)

theorem dedup_idempotent_witness:
  "deduplicate (deduplicate [(Paper ''A'' [] [])\<lparr>doi := Some ''10.1/x'', citations := 5\<rparr>,
                             (Paper ''A'' [] [])\<lparr>doi := Some ''10.1/x'', citations := 50\<rparr>,
                             (Paper ''B'' [] [])\<lparr>citations := 1\<rparr>])
     = [(Paper ''A'' [] [])\<lparr>doi := Some ''10.1/x'', citations := 5\<rparr>,
        (Paper ''B'' [] [])\<lparr>citations := 1\<rparr>]"
proof -
  have "deduplicate [(Paper ''A'' [] [])\<lparr>doi := Some ''10.1/x'', citations := 5\<rparr>,
                     (Paper ''A'' [] [])\<lparr>doi := Some ''10.1/x'', citations := 50\<rparr>,
                     (Paper ''B'' [] [])\<lparr>citations := 1\<rparr>]
     = [(Paper ''A'' [] [])\<lparr>doi := Some ''10.1/x'', citations := 5\<rparr>,
        (Paper ''B'' [] [])\<lparr>citations := 1\<rparr>]"
    by (simp add: eval_defs)
  with dedup_idempotent
    [of "[(Paper ''A'' [] [])\<lparr>doi := Some ''10.1/x'', citations := 5\<rparr>,
          (Paper ''A'' [] [])\<lparr>doi := Some ''10.1/x'', citations := 50\<rparr>,
          (Paper ''B'' [] [])\<lparr>citations := 1\<rparr>]"]
  show ?thesis by simp
qed

section \<open>Keyword ranking\<close>

lemma sum_indicator_card:
  "finite A \<Longrightarrow> (\<Sum>w \<in> A. if P w then 1 else 0 :: nat) = card {w \<in> A. P w}"
  by (simp add: sum.If_cases Int_def)

lemma keyword_score_refines:
  "keyword_score (set (split (lower query))) p = spec_keyword_score query p"
  by (simp add: keyword_score_def spec_keyword_score_def query_word_set_def sum_indicator_card)

lemma spec_keyword_score_bounds:
  "0 \<le> spec_keyword_score query p \<and> spec_keyword_score query p \<le> 1"
proof -
  let ?Q = "query_word_set query"
  let ?M = "{w \<in> ?Q. sublist w (lower (title p @ '' '' @ abstract p))}"
  have "finite ?Q" by (simp add: query_word_set_def)
  then have "card ?M \<le> card ?Q" by (intro card_mono) auto
  then have "real (card ?M) \<le> real (card ?Q)" by simp
  then show ?thesis
    by (simp add: spec_keyword_score_def divide_le_eq_1 card_gt_0_iff \<open>finite ?Q\<close>)
qed

lemma set_sort_reverse: "set (sort_reverse f xs) = set xs"
  by (simp add: sort_reverse_def)

lemma length_sort_reverse: "length (sort_reverse f xs) = length xs"
  by (simp add: sort_reverse_def)

lemma set_truncate_top_k: "set (truncate_top_k xs k) \<subseteq> set xs"
  by (auto simp: truncate_top_k_def slice_to_def split: option.splits dest: in_set_takeD)

lemma truncate_top_k_None: "truncate_top_k xs None = xs"
  by (simp add: truncate_top_k_def)

lemma spec_keyword_score_update:
  "spec_keyword_score query (p\<lparr>relevance_score := s\<rparr>) = spec_keyword_score query p"
  by (simp add: spec_keyword_score_def)

lemma rank_by_keywords_set_None:
  "set (rank_by_keywords papers query None) =
     (\<lambda>p. p\<lparr>relevance_score := spec_keyword_score query p\<rparr>) ` set papers"
  by (simp add: rank_by_keywords_def Let_def truncate_top_k_None set_sort_reverse
      keyword_score_refines)

lemma rank_by_keywords_set:
  "set (rank_by_keywords papers query top_k) \<subseteq>
     (\<lambda>p. p\<lparr>relevance_score := spec_keyword_score query p\<rparr>) ` set papers"
proof -
  have "set (rank_by_keywords papers query top_k) \<subseteq> set (rank_by_keywords papers query None)"
    using set_truncate_top_k [of _ top_k]
    by (simp add: rank_by_keywords_def Let_def truncate_top_k_None)
  then show ?thesis by (simp add: rank_by_keywords_set_None)
qed

text \<open>
  Claim C4: under keyword ranking every record is given the score of the specification,
  the number of distinct lowercase query words that are substrings of the lowercased
  title and abstract over the number of distinct query words. The score of every
  returned record lies between 0 and 1, and is 0 when the query has no word.
\<close>

theorem keyword_score_is_word_overlap:
  "set (rank_by_keywords papers query None) =
     (\<lambda>p. p\<lparr>relevance_score := spec_keyword_score query p\<rparr>) ` set papers \<and>
   (\<forall>r \<in> set (rank_by_keywords papers query top_k).
      relevance_score r = spec_keyword_score query r \<and>
      0 \<le> relevance_score r \<and> relevance_score r \<le> 1 \<and>
      (query_word_set query = {} \<longrightarrow> relevance_score r = 0))"
proof (intro conjI ballI)
  show "set (rank_by_keywords papers query None) =
     (\<lambda>p. p\<lparr>relevance_score := spec_keyword_score query p\<rparr>) ` set papers"
    by (rule rank_by_keywords_set_None)
next
  fix r
  assume "r \<in> set (rank_by_keywords papers query top_k)"
  with rank_by_keywords_set [of papers query top_k]
  obtain p where r: "r = p\<lparr>relevance_score := spec_keyword_score query p\<rparr>" by auto
  then show eq: "relevance_score r = spec_keyword_score query r"
    by (simp add: spec_keyword_score_update)
  from eq spec_keyword_score_bounds [of query r]
  show "0 \<le> relevance_score r" "relevance_score r \<le> 1" by simp_all
  from eq show "query_word_set query = {} \<longrightarrow> relevance_score r = 0"
    by (simp add: spec_keyword_score_def)
qed

text \<open>
  The scenario of the specification: both words of the query occur in the abstract, the
  score is 1; and a query of whitespace only has no word, the score is 0.
\<close>

theorem keyword_score_is_word_overlap_witness:
  "relevance_score (hd (rank_by_keywords [Paper ''T'' [] ''A study of COVID vaccine efficacy'']
       ''vaccine covid'' None)) = 1 \<and>
   spec_keyword_score ''vaccine covid''
     ((Paper ''T'' [] ''A study of COVID vaccine efficacy'')\<lparr>relevance_score := 1\<rparr>) = 1 \<and>
   query_word_set '' '' = {} \<and>
   relevance_score (hd (rank_by_keywords [(Paper ''T'' [] ''abc'')\<lparr>relevance_score := 1\<rparr>] '' '' None)) = 0"
proof -
  let ?P = "Paper ''T'' [] ''A study of COVID vaccine efficacy''"
  let ?R = "(Paper ''T'' [] ''abc'')\<lparr>relevance_score := 1\<rparr>"
  have e1: "rank_by_keywords [?P] ''vaccine covid'' None = [?P\<lparr>relevance_score := 1\<rparr>]"
    by code_simp
  have e2: "rank_by_keywords [?R] '' '' None = [?R\<lparr>relevance_score := 0\<rparr>]"
    by code_simp
  have e3: "query_word_set '' '' = {}"
    by (simp add: query_word_set_def split_def eval_defs)
  from keyword_score_is_word_overlap [of "[?P]" "''vaccine covid''" None, THEN conjunct2, unfolded e1]
  have s1: "spec_keyword_score ''vaccine covid'' (?P\<lparr>relevance_score := 1\<rparr>) = 1"
    by simp
  from keyword_score_is_word_overlap [of "[?R]" "'' ''" None, THEN conjunct2, unfolded e2] e3
  have s2: "relevance_score (hd (rank_by_keywords [?R] '' '' None)) = 0"
    by (simp add: e2)
  from e1 s1 e3 s2 show ?thesis by simp
qed

section \<open>Ranker: fallback and truncation\<close>



lemma length_rank_loop: "length (rank_loop eng query_vec n papers) = length papers"
  by (induction eng query_vec n papers rule: rank_loop.induct) (auto simp: Let_def)





lemma truncate_top_k_zero: "truncate_top_k xs (Some 0) = xs"
  by (simp add: truncate_top_k_def)

lemma length_truncate_positive:
  "0 < k \<Longrightarrow> length (truncate_top_k xs (Some k)) = min (nat k) (length xs)"
  by (simp add: truncate_top_k_def slice_to_def)

lemma length_rank_by_keywords_positive:
  "0 < k \<Longrightarrow> length (rank_by_keywords papers query (Some k)) = min (nat k) (length papers)"
  by (simp add: rank_by_keywords_def Let_def length_truncate_positive length_sort_reverse)

lemma length_rank_papers_by_query_positive:
  "0 < k \<Longrightarrow> length (rank_papers_by_query eng papers query (Some k)) = min (nat k) (length papers)"
  by (simp add: rank_papers_by_query_def Let_def length_truncate_positive length_sort_reverse
      length_rank_loop length_rank_by_keywords_positive)

text \<open>
  Claim C6 fails at the cap 0: the guard \<open>if top_k\<close> takes 0 for no cap, and both
  ranking paths return every record instead of none.
\<close>

theorem rank_cap_zero_returns_all:
  "length (rank_by_keywords papers query (Some 0)) = length papers \<and>
   length (rank_papers_by_query eng papers query (Some 0)) = length papers"
  by (simp add: rank_by_keywords_def rank_papers_by_query_def Let_def truncate_top_k_zero
      length_sort_reverse length_rank_loop)

theorem rank_cap_zero_returns_all_witness:
  "length (rank_by_keywords [Paper ''A'' [] [], Paper ''B'' [] []] ''q'' (Some 0)) = 2 \<and>
   length (rank_papers_by_query \<lparr>client = None, cosine_similarity = (\<lambda>a b. 1)\<rparr>
             [Paper ''A'' [] [], Paper ''B'' [] []] ''q'' (Some 0)) = 2"
  using rank_cap_zero_returns_all
    [where papers = "[Paper ''A'' [] [], Paper ''B'' [] []]" and query = "''q''"
       and eng = "\<lparr>client = None, cosine_similarity = (\<lambda>a b. 1)\<rparr>"]
  by simp

section \<open>Filter engine\<close>

lemma args_semantic_update:
  "year_range (args\<lparr>semantic_query := sq, semantic_threshold := t\<rparr>) = year_range args"
  "min_citations (args\<lparr>semantic_query := sq, semantic_threshold := t\<rparr>) = min_citations args"
  "max_citations (args\<lparr>semantic_query := sq, semantic_threshold := t\<rparr>) = max_citations args"
  "filter_fields (args\<lparr>semantic_query := sq, semantic_threshold := t\<rparr>) = filter_fields args"
  "has_pdf (args\<lparr>semantic_query := sq, semantic_threshold := t\<rparr>) = has_pdf args"
  "author_contains (args\<lparr>semantic_query := sq, semantic_threshold := t\<rparr>) = author_contains args"
  "venue_contains (args\<lparr>semantic_query := sq, semantic_threshold := t\<rparr>) = venue_contains args"
  "year_range (args\<lparr>semantic_query := sq\<rparr>) = year_range args"
  "min_citations (args\<lparr>semantic_query := sq\<rparr>) = min_citations args"
  "max_citations (args\<lparr>semantic_query := sq\<rparr>) = max_citations args"
  "filter_fields (args\<lparr>semantic_query := sq\<rparr>) = filter_fields args"
  "has_pdf (args\<lparr>semantic_query := sq\<rparr>) = has_pdf args"
  "author_contains (args\<lparr>semantic_query := sq\<rparr>) = author_contains args"
  "venue_contains (args\<lparr>semantic_query := sq\<rparr>) = venue_contains args"
  by simp_all

lemma filter_papers_no_client:
  assumes c: "client eng = None"
  shows "filter_papers eng papers (args\<lparr>semantic_query := sq, semantic_threshold := t\<rparr>)
     = filter_papers eng papers (args\<lparr>semantic_query := None\<rparr>)"
  unfolding filter_papers_def args_semantic_update c
  by (simp only: simp_thms if_False)

lemma subseq_filter_of: "subseq ys xs \<Longrightarrow> subseq (filter P ys) xs"
  using subseq_filter_left subseq_order.trans by blast

lemma subseq_if_filter: "subseq ys xs \<Longrightarrow> subseq (if c then filter P ys else ys) xs"
  by (simp add: subseq_filter_of)

lemma subseq_case_filter:
  "subseq ys xs \<Longrightarrow> subseq (case v of None \<Rightarrow> ys | Some r \<Rightarrow> filter (P r) ys) xs"
  by (cases v) (simp_all add: subseq_filter_of)

lemma subseq_case_if_filter:
  "subseq ys xs \<Longrightarrow>
   subseq (case v of None \<Rightarrow> ys | Some r \<Rightarrow> if c r then filter (P r) ys else ys) xs"
  by (cases v) (simp_all add: subseq_filter_of)

lemma truthy_None: "truthy None = False"
  by (simp add: truthy_def)

lemma filter_papers_subseq:
  assumes s: "semantic_query args = None"
  shows "subseq (filter_papers eng papers args) papers"
  unfolding filter_papers_def Let_def s truthy_None
  apply (simp only: simp_thms if_False)
  apply (intro subseq_if_filter subseq_case_filter subseq_case_if_filter)
  apply (rule subseq_order.refl)
  done

text \<open>
  Claim C3: without a configured client the semantic predicate is skipped. Whatever
  semantic query and threshold are supplied, the filter returns what it returns with
  the other predicates alone.
\<close>

theorem semantic_filter_skipped_without_client:
  "client eng = None \<Longrightarrow>
   filter_papers eng papers (args\<lparr>semantic_query := Some q, semantic_threshold := t\<rparr>)
     = filter_papers eng papers (args\<lparr>semantic_query := None\<rparr>)"
  by (rule filter_papers_no_client)

theorem semantic_filter_skipped_without_client_witness:
  "client \<lparr>client = None, cosine_similarity = (\<lambda>a b. 0)\<rparr> = None \<and>
   filter_papers \<lparr>client = None, cosine_similarity = (\<lambda>a b. 0)\<rparr>
     [(Paper ''A'' [] ''x'')\<lparr>citations := 5\<rparr>, (Paper ''B'' [] ''y'')\<lparr>citations := 50\<rparr>]
     (default_args\<lparr>min_citations := 10, semantic_query := Some ''vaccine'',
                    semantic_threshold := 9 / 10\<rparr>)
     = [(Paper ''B'' [] ''y'')\<lparr>citations := 50\<rparr>]"
proof -
  let ?e = "\<lparr>client = None, cosine_similarity = (\<lambda>a b. 0)\<rparr> :: engine"
  let ?ps = "[(Paper ''A'' [] ''x'')\<lparr>citations := 5\<rparr>, (Paper ''B'' [] ''y'')\<lparr>citations := 50\<rparr>]"
  have c: "client ?e = None" by simp
  have "filter_papers ?e ?ps ((default_args\<lparr>min_citations := 10\<rparr>)\<lparr>semantic_query := None\<rparr>)
      = [(Paper ''B'' [] ''y'')\<lparr>citations := 50\<rparr>]"
    by (simp add: filter_papers_def Let_def default_args_def truthy_def Paper_def)
  with semantic_filter_skipped_without_client
    [OF c, where papers = ?ps and args = "default_args\<lparr>min_citations := 10\<rparr>"
       and q = "''vaccine''" and t = "9 / 10"] c
  show ?thesis by simp
qed

text \<open>
  Claim C9: without the semantic predicate the filter returns a subsequence of its
  input, for every combination of the other predicates: the surviving records, each
  once, in their order in the input, and nothing else.
\<close>

theorem filter_output_is_subsequence:
  "semantic_query args = None \<Longrightarrow> subseq (filter_papers eng papers args) papers"
  by (rule filter_papers_subseq)

theorem filter_output_is_subsequence_witness:
  "subseq
     (filter_papers \<lparr>client = None, cosine_similarity = (\<lambda>a b. 0)\<rparr>
        [(Paper ''A'' [''Ada Lovelace''] ''x'')\<lparr>citations := 5\<rparr>,
         (Paper ''B'' [''Alan Turing''] ''y'')\<lparr>citations := 50\<rparr>,
         (Paper ''C'' [''ada king''] ''z'')\<lparr>citations := 7\<rparr>]
        (default_args\<lparr>author_contains := Some ''ADA'', semantic_query := None\<rparr>))
     [(Paper ''A'' [''Ada Lovelace''] ''x'')\<lparr>citations := 5\<rparr>,
      (Paper ''B'' [''Alan Turing''] ''y'')\<lparr>citations := 50\<rparr>,
      (Paper ''C'' [''ada king''] ''z'')\<lparr>citations := 7\<rparr>] \<and>
   filter_papers \<lparr>client = None, cosine_similarity = (\<lambda>a b. 0)\<rparr>
        [(Paper ''A'' [''Ada Lovelace''] ''x'')\<lparr>citations := 5\<rparr>,
         (Paper ''B'' [''Alan Turing''] ''y'')\<lparr>citations := 50\<rparr>,
         (Paper ''C'' [''ada king''] ''z'')\<lparr>citations := 7\<rparr>]
        (default_args\<lparr>author_contains := Some ''ADA'', semantic_query := None\<rparr>)
     = [(Paper ''A'' [''Ada Lovelace''] ''x'')\<lparr>citations := 5\<rparr>,
        (Paper ''C'' [''ada king''] ''z'')\<lparr>citations := 7\<rparr>]"
proof -
  have "filter_papers \<lparr>client = None, cosine_similarity = (\<lambda>a b. 0)\<rparr>
        [(Paper ''A'' [''Ada Lovelace''] ''x'')\<lparr>citations := 5\<rparr>,
         (Paper ''B'' [''Alan Turing''] ''y'')\<lparr>citations := 50\<rparr>,
         (Paper ''C'' [''ada king''] ''z'')\<lparr>citations := 7\<rparr>]
        (default_args\<lparr>author_contains := Some ''ADA'', semantic_query := None\<rparr>)
     = [(Paper ''A'' [''Ada Lovelace''] ''x'')\<lparr>citations := 5\<rparr>,
        (Paper ''C'' [''ada king''] ''z'')\<lparr>citations := 7\<rparr>]"
    by (simp add: filter_papers_def Let_def default_args_def truthy_def Paper_def author_ok_def
        lower_def lower_char_def sublist_code)
  with filter_output_is_subsequence
    [where eng = "\<lparr>client = None, cosine_similarity = (\<lambda>a b. 0)\<rparr>"
       and papers = "[(Paper ''A'' [''Ada Lovelace''] ''x'')\<lparr>citations := 5\<rparr>,
          (Paper ''B'' [''Alan Turing''] ''y'')\<lparr>citations := 50\<rparr>,
          (Paper ''C'' [''ada king''] ''z'')\<lparr>citations := 7\<rparr>]"
       and args = "default_args\<lparr>author_contains := Some ''ADA'', semantic_query := None\<rparr>"]
  show ?thesis by simp
qed

section \<open>Source adapters\<close>

lemma and_then_simps:
  "and_then (Inr v) f = f v" "and_then (Inl e) f = Inl e"
  by (simp_all add: and_then_def)

lemma and_then_eq_Inr: "(and_then r f = Inr y) = (\<exists>v. r = Inr v \<and> f v = Inr y)"
  by (cases r) (simp_all add: and_then_def)

lemma returns_and_then:
  "(\<exists>y. and_then r f = Inr y) = (\<exists>v. r = Inr v \<and> (\<exists>y. f v = Inr y))"
  by (cases r) (simp_all add: and_then_def)

lemma returns_if:
  "(\<exists>y. (if b then Inr u else g) = Inr y) = (b \<or> (\<exists>y. g = Inr y))"
  by simp

lemma get_obj: "get (JObj kvs) k d = Inr (field_or (JObj kvs) k d)"
  by (simp add: get_def field_or_def)

lemma get_eq_Inr: "(get x k d = Inr v) = (is_obj x \<and> v = field_or x k d)"
  by (cases x) (auto simp: get_def field_or_def)

lemma comprehension_get:
  "(\<exists>ys. comprehension (\<lambda>a. get a k d) xs = Inr ys) = list_all is_obj xs"
proof (induction xs)
  case Nil
  show ?case by simp
next
  case (Cons x xs)
  then show ?case
    by (cases x) (auto simp: and_then_eq_Inr get_eq_Inr)
qed

lemma less_int_cases:
  "less_int c n = Inr True \<or> less_int c n = Inr False \<or> (\<exists>e. less_int c n = Inl e)"
  by (cases "less_int c n") auto

lemma ss_item_None:
  "(ss_item n item = Inr None) = (is_obj item \<and> less_int (citation_count item) n = Inr True)"
  by (auto simp: ss_item_def and_then_eq_Inr get_eq_Inr citation_count_def)

lemma ss_item_Some:
  assumes "ss_item n item = Inr (Some p)"
  shows "reaches n item \<and> raw_title p = field_or item ''title'' (JStr '''')"
  using assms
  by (auto simp: ss_item_def and_then_eq_Inr get_eq_Inr citation_count_def reaches_def
      split: if_splits)

lemma ss_item_returns:
  "(\<exists>r. ss_item n item = Inr r) = item_ok n item"
proof (cases item)
  case (JObj kvs)
  have pdf: "(\<exists>v. (if json_truthy x then get x k d else Inr JNull) = Inr v)
               = (is_obj x \<or> \<not> json_truthy x)" for x k d
    by (simp add: get_eq_Inr)
  show ?thesis
    using less_int_cases [of "citation_count item" n]
    unfolding JObj item_ok_def reaches_def ss_item_def
    by (auto simp: returns_and_then returns_if get_eq_Inr comprehension_get objects_def pdf
        citation_count_def split: sum.splits)
qed (simp_all add: ss_item_def get_def and_then_def item_ok_def)

lemma ss_loop_titles:
  "ss_loop n items = Inr papers \<Longrightarrow>
   map raw_title papers
     = map (\<lambda>item. field_or item ''title'' (JStr '''')) (filter (reaches n) items)"
proof (induction items arbitrary: papers)
  case Nil
  then show ?case by simp
next
  case (Cons item items)
  from Cons.prems obtain r ps where r: "ss_item n item = Inr r" and ps: "ss_loop n items = Inr ps"
    and papers: "papers = (case r of None \<Rightarrow> ps | Some paper \<Rightarrow> paper # ps)"
    by (auto simp: and_then_eq_Inr)
  note ih = Cons.IH [OF ps]
  show ?case
  proof (cases r)
    case None
    with r have "less_int (citation_count item) n = Inr True" by (simp add: ss_item_None)
    then have "\<not> reaches n item" by (simp add: reaches_def)
    with ih papers None show ?thesis by simp
  next
    case (Some p)
    with r ss_item_Some [of n item p]
    have "reaches n item" "raw_title p = field_or item ''title'' (JStr '''')" by simp_all
    with ih papers Some show ?thesis by simp
  qed
qed

lemma ss_loop_returns:
  "(\<exists>papers. ss_loop n items = Inr papers) = list_all (item_ok n) items"
  by (induction items) (simp_all add: returns_and_then ss_item_returns)

lemma ss_search_titles:
  assumes "ss_search n (Json data) = Inr papers"
  shows "map raw_title papers
     = map (\<lambda>item. field_or item ''title'' (JStr '''')) (filter (reaches n) (response_items data))"
proof -
  from assms obtain items where "iter (field_or data ''data'' (JArr [])) = Inr items"
    and "ss_loop n items = Inr papers"
    by (auto simp: ss_search_def and_then_eq_Inr get_eq_Inr)
  then show ?thesis
    by (simp add: response_items_def ss_loop_titles)
qed

lemma ss_search_returns:
  "(\<exists>papers. ss_search n (Json data) = Inr papers) = response_ok n data"
  by (cases "iter (field_or data ''data'' (JArr []))")
    (simp_all add: ss_search_def returns_and_then get_eq_Inr ss_loop_returns response_ok_def)

lemma field_or_snoc:
  "field_or (JObj (kvs @ [(k, v)])) k' d = (if k' = k then v else field_or (JObj kvs) k' d)"
  by (simp add: field_or_def)

lemma map_sum_and_then:
  "map_sum id g (and_then r f) = and_then r (\<lambda>v. map_sum id g (f v))"
  by (cases r) (simp_all add: and_then_def)

lemma ss_item_title:
  "ss_item n (JObj (kvs @ [(''title'', t)]))
     = map_sum id (map_option (\<lambda>p. p\<lparr>raw_title := t\<rparr>)) (ss_item n (JObj kvs))"
  by (simp add: ss_item_def get_obj field_or_snoc and_then_simps map_sum_and_then if_distrib
      cong: if_cong)

lemmas adapter_defs = ss_search_def ss_item_def get_def and_then_def or_else_def field_or_def
    response_items_def reaches_def citation_count_def arxiv_search_def arxiv_paper_def

text \<open>
  Claim C7, as the code has it. Whenever the Semantic Scholar search returns, it has
  emitted one record for each item of the answer that reaches the citation threshold,
  in order, and the record's title is the item's title as the item has it: the empty
  string when the item has no title, \<open>None\<close> when its title is null. An item without a
  title is emitted, not discarded. The search returns exactly on the answers of the
  shape \<open>response_ok\<close>, and with the empty list when the request fails; on any other
  answer \<open>AttributeError\<close> or \<open>TypeError\<close> leaves \<open>search\<close>, as on an item whose
  fields of study are strings, or on data that is null. The title has no part in this:
  a title given to an item, null or not, changes the title of its record and nothing
  else. The arXiv search emits one record for every result, with the result's title,
  empty or not.
\<close>

theorem adapters_keep_untitled_items:
  "(ss_search n (Json data) = Inr papers \<longrightarrow>
      map raw_title papers
        = map (\<lambda>item. field_or item ''title'' (JStr ''''))
            (filter (reaches n) (response_items data))) \<and>
   (\<exists>papers. ss_search n (Json data) = Inr papers) = response_ok n data \<and>
   ss_search n RequestException = Inr [] \<and>
   ss_item n (JObj (kvs @ [(''title'', t)]))
     = map_sum id (map_option (\<lambda>p. p\<lparr>raw_title := t\<rparr>)) (ss_item n (JObj kvs)) \<and>
   ss_search 0 (Json (JObj [(''data'', JArr
      [JObj [(''title'', JStr ''T''), (''fieldsOfStudy'', JArr [JStr ''Physics''])]])]))
     = Inl AttributeError \<and>
   ss_search 0 (Json (JObj [(''data'', JNull)])) = Inl TypeError \<and>
   map title (arxiv_search results) = map result_title results"
proof (intro conjI impI)
  assume "ss_search n (Json data) = Inr papers"
  then show "map raw_title papers
        = map (\<lambda>item. field_or item ''title'' (JStr ''''))
            (filter (reaches n) (response_items data))"
    by (rule ss_search_titles)
next
  show "(\<exists>papers. ss_search n (Json data) = Inr papers) = response_ok n data"
    by (rule ss_search_returns)
next
  show "ss_search n RequestException = Inr []"
    by (simp add: ss_search_def)
next
  show "ss_item n (JObj (kvs @ [(''title'', t)]))
     = map_sum id (map_option (\<lambda>p. p\<lparr>raw_title := t\<rparr>)) (ss_item n (JObj kvs))"
    by (rule ss_item_title)
next
  show "ss_search 0 (Json (JObj [(''data'', JArr
      [JObj [(''title'', JStr ''T''), (''fieldsOfStudy'', JArr [JStr ''Physics''])]])]))
     = Inl AttributeError"
    by (simp add: adapter_defs)
next
  show "ss_search 0 (Json (JObj [(''data'', JNull)])) = Inl TypeError"
    by (simp add: adapter_defs)
next
  show "map title (arxiv_search results) = map result_title results"
    by (simp add: arxiv_search_def arxiv_paper_def comp_def)
qed

text \<open>
  Claim C7 as stated fails: a Semantic Scholar item with no title comes out as one
  record with an empty title, an item whose title is null as one record whose title is
  \<open>None\<close>, and an arXiv result with an empty title as one record with an empty title.
\<close>

theorem untitled_item_counterexample:
  "ss_search 0 (Json (JObj [(''data'', JArr
      [JObj [(''citationCount'', JInt 3), (''abstract'', JStr ''text'')]])]))
     = Inr [\<lparr>raw_title = JStr '''', raw_authors = [], raw_abstract = JStr ''text'',
             raw_year = JNull, raw_doi = JNull, raw_arxiv_id = JNull, raw_url = JStr '''',
             raw_pdf_url = JNull, raw_source = ''semantic_scholar'', raw_citations = JInt 3,
             raw_venue = JStr '''', raw_fields = [],
       raw_keywords = [], raw_relevance_score = 0, raw_embedding = None\<rparr>] \<and>
   map_sum id (map raw_title)
     (ss_search 0 (Json (JObj [(''data'', JArr [JObj [(''title'', JNull)]])])))
     = Inr [JNull] \<and>
   map title (arxiv_search
     [\<lparr>result_title = [], result_authors = [], result_summary = ''text'',
       result_published = None, result_doi = None, result_entry_id = ''http://arxiv.org/abs/1'',
       result_pdf_url = None, result_categories = []\<rparr>]) = ['''']"
  by (simp add: adapter_defs)

text \<open>
  An answer of three items under the threshold 2: the first has no title and 3
  citations, the second has a title and a null citation count, the third has a null
  title, 2 citations, one author, null fields of study and an identifier. The first
  and the third are emitted, with an empty title and with \<open>None\<close>. The third item
  without its title raises nothing either, and comes out with an empty title.
\<close>

theorem adapters_keep_untitled_items_witness:
  "map raw_title
     [\<lparr>raw_title = JStr '''', raw_authors = [], raw_abstract = JStr ''text'',
       raw_year = JNull, raw_doi = JNull, raw_arxiv_id = JNull, raw_url = JStr '''',
       raw_pdf_url = JNull, raw_source = ''semantic_scholar'', raw_citations = JInt 3,
       raw_venue = JStr '''', raw_fields = [],
       raw_keywords = [], raw_relevance_score = 0, raw_embedding = None\<rparr>,
      \<lparr>raw_title = JNull, raw_authors = [JStr ''Ann''], raw_abstract = JStr '''',
       raw_year = JInt 2020, raw_doi = JStr ''10.1/x'', raw_arxiv_id = JNull,
       raw_url = JStr '''', raw_pdf_url = JNull, raw_source = ''semantic_scholar'',
       raw_citations = JInt 2, raw_venue = JStr '''', raw_fields = [],
       raw_keywords = [], raw_relevance_score = 0, raw_embedding = None\<rparr>]
     = map (\<lambda>item. field_or item ''title'' (JStr ''''))
         (filter (reaches 2) (response_items (JObj [(''total'', JInt 3), (''data'', JArr
            [JObj [(''citationCount'', JInt 3), (''abstract'', JStr ''text'')],
             JObj [(''title'', JStr ''Low''), (''citationCount'', JNull)],
             JObj ([(''citationCount'', JInt 2), (''authors'', JArr [JObj [(''name'', JStr ''Ann'')]]),
                    (''fieldsOfStudy'', JNull), (''year'', JInt 2020),
                    (''externalIds'', JObj [(''DOI'', JStr ''10.1/x'')])]
                   @ [(''title'', JNull)])])]))) \<and>
   ss_search 2 (Json (JObj [(''total'', JInt 3), (''data'', JArr
            [JObj [(''citationCount'', JInt 3), (''abstract'', JStr ''text'')],
             JObj [(''title'', JStr ''Low''), (''citationCount'', JNull)],
             JObj ([(''citationCount'', JInt 2), (''authors'', JArr [JObj [(''name'', JStr ''Ann'')]]),
                    (''fieldsOfStudy'', JNull), (''year'', JInt 2020),
                    (''externalIds'', JObj [(''DOI'', JStr ''10.1/x'')])]
                   @ [(''title'', JNull)])])]))
     = Inr
     [\<lparr>raw_title = JStr '''', raw_authors = [], raw_abstract = JStr ''text'',
       raw_year = JNull, raw_doi = JNull, raw_arxiv_id = JNull, raw_url = JStr '''',
       raw_pdf_url = JNull, raw_source = ''semantic_scholar'', raw_citations = JInt 3,
       raw_venue = JStr '''', raw_fields = [],
       raw_keywords = [], raw_relevance_score = 0, raw_embedding = None\<rparr>,
      \<lparr>raw_title = JNull, raw_authors = [JStr ''Ann''], raw_abstract = JStr '''',
       raw_year = JInt 2020, raw_doi = JStr ''10.1/x'', raw_arxiv_id = JNull,
       raw_url = JStr '''', raw_pdf_url = JNull, raw_source = ''semantic_scholar'',
       raw_citations = JInt 2, raw_venue = JStr '''', raw_fields = [],
       raw_keywords = [], raw_relevance_score = 0, raw_embedding = None\<rparr>] \<and>
   map (\<lambda>item. field_or item ''title'' (JStr ''''))
         (filter (reaches 2) (response_items (JObj [(''total'', JInt 3), (''data'', JArr
            [JObj [(''citationCount'', JInt 3), (''abstract'', JStr ''text'')],
             JObj [(''title'', JStr ''Low''), (''citationCount'', JNull)],
             JObj ([(''citationCount'', JInt 2), (''authors'', JArr [JObj [(''name'', JStr ''Ann'')]]),
                    (''fieldsOfStudy'', JNull), (''year'', JInt 2020),
                    (''externalIds'', JObj [(''DOI'', JStr ''10.1/x'')])]
                   @ [(''title'', JNull)])])])))
     = [JStr '''', JNull] \<and>
   ss_item 2 (JObj ([(''citationCount'', JInt 2), (''authors'', JArr [JObj [(''name'', JStr ''Ann'')]]),
                    (''fieldsOfStudy'', JNull), (''year'', JInt 2020),
                    (''externalIds'', JObj [(''DOI'', JStr ''10.1/x'')])]
                   @ [(''title'', JNull)]))
     = map_sum id (map_option (\<lambda>p. p\<lparr>raw_title := JNull\<rparr>))
         (Inr (Some
           \<lparr>raw_title = JStr '''', raw_authors = [JStr ''Ann''], raw_abstract = JStr '''',
            raw_year = JInt 2020, raw_doi = JStr ''10.1/x'', raw_arxiv_id = JNull,
            raw_url = JStr '''', raw_pdf_url = JNull, raw_source = ''semantic_scholar'',
            raw_citations = JInt 2, raw_venue = JStr '''', raw_fields = [],
       raw_keywords = [], raw_relevance_score = 0, raw_embedding = None\<rparr>)) \<and>
   map title (arxiv_search
     [\<lparr>result_title = ''T'', result_authors = [], result_summary = ''text'',
       result_published = None, result_doi = None, result_entry_id = ''http://arxiv.org/abs/1'',
       result_pdf_url = None, result_categories = []\<rparr>]) = [''T'']"
proof -
  let ?i1 = "JObj [(''citationCount'', JInt 3), (''abstract'', JStr ''text'')]"
  let ?i2 = "JObj [(''title'', JStr ''Low''), (''citationCount'', JNull)]"
  let ?kvs = "[(''citationCount'', JInt 2), (''authors'', JArr [JObj [(''name'', JStr ''Ann'')]]),
               (''fieldsOfStudy'', JNull), (''year'', JInt 2020),
               (''externalIds'', JObj [(''DOI'', JStr ''10.1/x'')])]"
  let ?data = "JObj [(''total'', JInt 3), (''data'', JArr [?i1, ?i2, JObj (?kvs @ [(''title'', JNull)])])]"
  let ?r1 = "\<lparr>raw_title = JStr '''', raw_authors = [], raw_abstract = JStr ''text'',
       raw_year = JNull, raw_doi = JNull, raw_arxiv_id = JNull, raw_url = JStr '''',
       raw_pdf_url = JNull, raw_source = ''semantic_scholar'', raw_citations = JInt 3,
       raw_venue = JStr '''', raw_fields = [],
       raw_keywords = [], raw_relevance_score = 0, raw_embedding = None\<rparr>"
  let ?r3 = "\<lparr>raw_title = JNull, raw_authors = [JStr ''Ann''], raw_abstract = JStr '''',
       raw_year = JInt 2020, raw_doi = JStr ''10.1/x'', raw_arxiv_id = JNull,
       raw_url = JStr '''', raw_pdf_url = JNull, raw_source = ''semantic_scholar'',
       raw_citations = JInt 2, raw_venue = JStr '''', raw_fields = [],
       raw_keywords = [], raw_relevance_score = 0, raw_embedding = None\<rparr>"
  let ?res = "[\<lparr>result_title = ''T'', result_authors = [], result_summary = ''text'',
       result_published = None, result_doi = None, result_entry_id = ''http://arxiv.org/abs/1'',
       result_pdf_url = None, result_categories = []\<rparr>]"
  have run: "ss_search 2 (Json ?data) = Inr [?r1, ?r3]"
    by (simp add: adapter_defs)
  have items: "map (\<lambda>item. field_or item ''title'' (JStr ''''))
      (filter (reaches 2) (response_items ?data)) = [JStr '''', JNull]"
    by (simp add: adapter_defs)
  have bare: "ss_item 2 (JObj ?kvs) = Inr (Some (?r3\<lparr>raw_title := JStr ''''\<rparr>))"
    by (simp add: adapter_defs)
  note t = adapters_keep_untitled_items
    [where n = 2 and data = ?data and papers = "[?r1, ?r3]" and kvs = ?kvs and t = JNull
       and results = ?res]
  from t run have 1: "map raw_title [?r1, ?r3]
      = map (\<lambda>item. field_or item ''title'' (JStr ''''))
          (filter (reaches 2) (response_items ?data))"
    by (simp only: simp_thms)
  from t have "ss_item 2 (JObj (?kvs @ [(''title'', JNull)]))
     = map_sum id (map_option (\<lambda>p. p\<lparr>raw_title := JNull\<rparr>)) (ss_item 2 (JObj ?kvs))"
    by (simp only: simp_thms)
  with bare have 4: "ss_item 2 (JObj (?kvs @ [(''title'', JNull)]))
     = map_sum id (map_option (\<lambda>p. p\<lparr>raw_title := JNull\<rparr>))
         (Inr (Some (?r3\<lparr>raw_title := JStr ''''\<rparr>)))"
    by (simp only:)
  from t have "map title (arxiv_search ?res) = map result_title ?res"
    by (simp only: simp_thms)
  then have 5: "map title (arxiv_search ?res) = [''T'']" by simp
  from 1 run items 4 5 show ?thesis by simp
qed

section \<open>Index selection\<close>

text \<open>Characters: the program's tables against the character codes.\<close>

lemma char_of_code: "(of_char c :: nat) = of_char d \<Longrightarrow> c = d"
  by (rule of_char_eqI)

lemma isspace_c_cases:
  "isspace_c c \<longleftrightarrow> c = CHR '' '' \<or> c = CHR 0x09 \<or> c = CHR 0x0A \<or> c = CHR 0x0B \<or>
     c = CHR 0x0C \<or> c = CHR 0x0D"
  by (simp add: isspace_c_def)

lemma isspace_c_code: "isspace_c c \<longleftrightarrow> (of_char c :: nat) \<in> {9..13} \<union> {32}"
proof
  assume "isspace_c c"
  then show "(of_char c :: nat) \<in> {9..13} \<union> {32}"
    unfolding isspace_c_cases by (elim disjE) simp_all
next
  assume "(of_char c :: nat) \<in> {9..13} \<union> {32}"
  then have "(of_char c :: nat) = 9 \<or> (of_char c :: nat) = 10 \<or> (of_char c :: nat) = 11 \<or>
      (of_char c :: nat) = 12 \<or> (of_char c :: nat) = 13 \<or> (of_char c :: nat) = 32"
    by (simp add: atLeastAtMost_iff) arith
  then have "c = CHR 0x09 \<or> c = CHR 0x0A \<or> c = CHR 0x0B \<or> c = CHR 0x0C \<or> c = CHR 0x0D \<or>
      c = CHR '' ''"
  proof (elim disjE)
    assume "(of_char c :: nat) = 9"
    then have "c = CHR 0x09" by (intro char_of_code) simp
    then show ?thesis by simp
  next
    assume "(of_char c :: nat) = 10"
    then have "c = CHR 0x0A" by (intro char_of_code) simp
    then show ?thesis by simp
  next
    assume "(of_char c :: nat) = 11"
    then have "c = CHR 0x0B" by (intro char_of_code) simp
    then show ?thesis by simp
  next
    assume "(of_char c :: nat) = 12"
    then have "c = CHR 0x0C" by (intro char_of_code) simp
    then show ?thesis by simp
  next
    assume "(of_char c :: nat) = 13"
    then have "c = CHR 0x0D" by (intro char_of_code) simp
    then show ?thesis by simp
  next
    assume "(of_char c :: nat) = 32"
    then have "c = CHR '' ''" by (intro char_of_code) simp
    then show ?thesis by simp
  qed
  then show "isspace_c c"
    unfolding isspace_c_cases by (elim disjE) simp_all
qed

lemma blank_c_iff: "blank_c w \<longleftrightarrow> (\<forall>c \<in> set w. isspace_c c)"
  by (simp only: blank_c_def isspace_c_code)

lemma is_digit_cases:
  "is_digit c \<longleftrightarrow> c = CHR ''0'' \<or> c = CHR ''1'' \<or> c = CHR ''2'' \<or> c = CHR ''3'' \<or> c = CHR ''4'' \<or>
     c = CHR ''5'' \<or> c = CHR ''6'' \<or> c = CHR ''7'' \<or> c = CHR ''8'' \<or> c = CHR ''9''"
  by (simp add: is_digit_def)

lemma digit_val_digit: "is_digit c \<Longrightarrow> digit_val c = Some (digit_of c)"
  unfolding is_digit_cases
  by (elim disjE) (simp_all add: digit_val_def digit_of_def)

lemma digit_val_not: "\<not> is_digit c \<Longrightarrow> digit_val c = None"
  unfolding is_digit_cases
  by (simp add: digit_val_def)

lemma digit_val_iff: "digit_val c = Some v \<longleftrightarrow> is_digit c \<and> v = digit_of c"
  using digit_val_digit [of c] digit_val_not [of c] by (cases "is_digit c") auto

lemma underscore_not_digit: "\<not> is_digit CHR ''_''"
  by (simp add: is_digit_def)

lemma digit_not_space: "is_digit c \<Longrightarrow> \<not> isspace_c c"
  unfolding is_digit_cases
  by (elim disjE) (simp_all add: isspace_c_def)

lemma digit_not_sign: "is_digit c \<Longrightarrow> c \<noteq> CHR ''-'' \<and> c \<noteq> CHR ''+'' \<and> c \<noteq> CHR ''_''"
  unfolding is_digit_cases
  by (elim disjE) simp_all

text \<open>The characters of a numeral.\<close>

lemma decimal_numeral_chars:
  "decimal_numeral b v \<Longrightarrow> b \<noteq> [] \<and> is_digit (hd b) \<and> is_digit (last b) \<and>
     filter (\<lambda>c. c \<noteq> CHR ''_'') b = filter is_digit b"
proof (induction rule: decimal_numeral.induct)
  case (one c)
  then show ?case by (simp add: digit_not_sign)
next
  case (more b v c)
  then show ?case by (simp add: digit_not_sign)
next
  case (grouped b v c)
  then show ?case by (simp add: digit_not_sign underscore_not_digit)
qed

text \<open>The program's digit loop against the numerals.\<close>

lemma int_digits_sound:
  "int_digits acc s = Some v \<Longrightarrow> decimal_numeral pre acc \<Longrightarrow> decimal_numeral (pre @ s) v"
proof (induction acc s arbitrary: pre rule: int_digits.induct)
  case (1 acc)
  then show ?case by simp
next
  case (2 acc c)
  then obtain cv where cv: "digit_val c = Some cv" and v: "v = 10 * acc + cv"
    by (auto split: option.splits)
  with "2.prems"(2) decimal_numeral.more [of pre acc c] show ?case
    by (simp add: digit_val_iff)
next
  case (3 acc c d ds)
  show ?case
  proof (cases "c = CHR ''_''")
    case True
    with "3.prems" obtain dv where dv: "digit_val d = Some dv"
        and r: "int_digits (10 * acc + dv) ds = Some v"
      by (auto split: option.splits)
    from dv "3.prems"(2) have "decimal_numeral (pre @ ''_'' @ [d]) (10 * acc + dv)"
      using decimal_numeral.grouped [of pre acc d] by (simp add: digit_val_iff)
    from "3.IH"(1) [OF True dv r this] True show ?thesis by simp
  next
    case False
    with "3.prems" obtain cv where cv: "digit_val c = Some cv"
        and r: "int_digits (10 * acc + cv) (d # ds) = Some v"
      by (auto split: option.splits)
    from cv "3.prems"(2) have "decimal_numeral (pre @ [c]) (10 * acc + cv)"
      using decimal_numeral.more [of pre acc c] by (simp add: digit_val_iff)
    from "3.IH"(2) [OF False cv r this] show ?thesis by simp
  qed
qed

lemma int_digits_snoc:
  "int_digits acc s = Some v \<Longrightarrow> is_digit c \<Longrightarrow>
   int_digits acc (s @ [c]) = Some (10 * v + digit_of c)"
proof (induction acc s rule: int_digits.induct)
  case (1 acc)
  then show ?case by (simp add: digit_val_digit)
next
  case (2 acc x)
  then obtain xv where xv: "digit_val x = Some xv" and v: "v = 10 * acc + xv"
    by (auto split: option.splits)
  from xv have "x \<noteq> CHR ''_''"
    using digit_not_sign [of x] by (auto simp: digit_val_iff)
  with xv v "2.prems"(2) show ?case by (simp add: digit_val_digit)
next
  case (3 acc x y zs)
  show ?case
  proof (cases "x = CHR ''_''")
    case True
    with "3.prems" obtain yv where yv: "digit_val y = Some yv"
        and r: "int_digits (10 * acc + yv) zs = Some v"
      by (auto split: option.splits)
    from "3.IH"(1) [OF True yv r "3.prems"(2)] True yv show ?thesis
      by (cases zs) simp_all
  next
    case False
    with "3.prems" obtain xv where xv: "digit_val x = Some xv"
        and r: "int_digits (10 * acc + xv) (y # zs) = Some v"
      by (auto split: option.splits)
    from "3.IH"(2) [OF False xv r "3.prems"(2)] False xv show ?thesis
      by simp
  qed
qed

lemma int_digits_snoc_grouped:
  "int_digits acc s = Some v \<Longrightarrow> is_digit c \<Longrightarrow>
   int_digits acc (s @ ''_'' @ [c]) = Some (10 * v + digit_of c)"
proof (induction acc s rule: int_digits.induct)
  case (1 acc)
  then show ?case by (simp add: digit_val_digit)
next
  case (2 acc x)
  then obtain xv where xv: "digit_val x = Some xv" and v: "v = 10 * acc + xv"
    by (auto split: option.splits)
  from xv have "x \<noteq> CHR ''_''"
    using digit_not_sign [of x] by (auto simp: digit_val_iff)
  with xv v "2.prems"(2) show ?case by (simp add: digit_val_digit)
next
  case (3 acc x y zs)
  show ?case
  proof (cases "x = CHR ''_''")
    case True
    with "3.prems" obtain yv where yv: "digit_val y = Some yv"
        and r: "int_digits (10 * acc + yv) zs = Some v"
      by (auto split: option.splits)
    from "3.IH"(1) [OF True yv r "3.prems"(2)] True yv show ?thesis
      by (cases zs) simp_all
  next
    case False
    with "3.prems" obtain xv where xv: "digit_val x = Some xv"
        and r: "int_digits (10 * acc + xv) (y # zs) = Some v"
      by (auto split: option.splits)
    from "3.IH"(2) [OF False xv r "3.prems"(2)] False xv show ?thesis
      by simp
  qed
qed

lemma decimal_numeral_complete:
  "decimal_numeral b v \<Longrightarrow> \<exists>c cs. b = c # cs \<and> is_digit c \<and> int_digits (digit_of c) cs = Some v"
proof (induction rule: decimal_numeral.induct)
  case (one c)
  then show ?case by simp
next
  case (more b v c)
  then obtain c0 cs where "b = c0 # cs" "is_digit c0" "int_digits (digit_of c0) cs = Some v"
    by auto
  with more.hyps(2) int_digits_snoc [of "digit_of c0" cs v c] show ?case by simp
next
  case (grouped b v c)
  then obtain c0 cs where "b = c0 # cs" "is_digit c0" "int_digits (digit_of c0) cs = Some v"
    by auto
  with grouped.hyps(2) int_digits_snoc_grouped [of "digit_of c0" cs v c] show ?case by simp
qed

lemma int_body_iff:
  "int_body b = Some v \<longleftrightarrow> decimal_numeral b v \<and> length (filter is_digit b) \<le> 4300"
proof
  assume a: "int_body b = Some v"
  then have m: "length (filter (\<lambda>c. c \<noteq> CHR ''_'') b) \<le> 4300"
    by (simp add: int_body_def max_str_digits_def split: if_splits)
  with a obtain c cs cv where b: "b = c # cs" and cv: "digit_val c = Some cv"
      and r: "int_digits cv cs = Some v"
    by (auto simp: int_body_def max_str_digits_def split: list.splits option.splits)
  from cv have "decimal_numeral [c] cv"
    using decimal_numeral.one [of c] by (simp add: digit_val_iff)
  from int_digits_sound [OF r this] b have d: "decimal_numeral b v" by simp
  with m decimal_numeral_chars [OF d] show "decimal_numeral b v \<and> length (filter is_digit b) \<le> 4300"
    by simp
next
  assume a: "decimal_numeral b v \<and> length (filter is_digit b) \<le> 4300"
  then obtain c cs where "b = c # cs" "is_digit c" "int_digits (digit_of c) cs = Some v"
    using decimal_numeral_complete [of b v] by auto
  moreover from a decimal_numeral_chars [of b v]
  have "length (filter (\<lambda>c. c \<noteq> CHR ''_'') b) \<le> 4300" by simp
  ultimately show "int_body b = Some v"
    by (simp add: int_body_def max_str_digits_def digit_val_digit)
qed

text \<open>The whitespace that \<open>int\<close> ignores.\<close>

lemma strip_c_decompose:
  "\<exists>w1 w2. s = w1 @ strip_c s @ w2 \<and> (\<forall>c \<in> set w1. isspace_c c) \<and> (\<forall>c \<in> set w2. isspace_c c)"
proof -
  let ?u = "dropWhile isspace_c s"
  let ?w1 = "takeWhile isspace_c s"
  let ?w2 = "rev (takeWhile isspace_c (rev ?u))"
  have "?u = rev (takeWhile isspace_c (rev ?u) @ dropWhile isspace_c (rev ?u))"
    by (simp only: takeWhile_dropWhile_id rev_rev_ident)
  also have "\<dots> = rev (dropWhile isspace_c (rev ?u)) @ ?w2"
    by (simp only: rev_append)
  finally have u: "?u = strip_c s @ ?w2"
    by (simp only: strip_c_def)
  have "s = ?w1 @ ?u" by simp
  with u have "s = ?w1 @ strip_c s @ ?w2" by simp
  moreover have "\<forall>c \<in> set ?w1. isspace_c c" by (auto dest: set_takeWhileD)
  moreover have "\<forall>c \<in> set ?w2. isspace_c c" by (auto dest: set_takeWhileD)
  ultimately show ?thesis by (intro exI conjI)
qed

lemma dropWhile_all: "\<forall>c \<in> set ws. P c \<Longrightarrow> dropWhile P (ws @ ys) = dropWhile P ys"
  by (induction ws) simp_all

lemma dropWhile_head: "ys \<noteq> [] \<Longrightarrow> \<not> P (hd ys) \<Longrightarrow> dropWhile P ys = ys"
  by (cases ys) simp_all

lemma strip_c_core:
  assumes "\<forall>c \<in> set w1. isspace_c c" "\<forall>c \<in> set w2. isspace_c c"
    and "core \<noteq> []" "\<not> isspace_c (hd core)" "\<not> isspace_c (last core)"
  shows "strip_c (w1 @ core @ w2) = core"
proof -
  from assms(3,4) have "dropWhile isspace_c (core @ w2) = core @ w2"
    by (intro dropWhile_head) simp_all
  with assms(1) have 1: "dropWhile isspace_c (w1 @ core @ w2) = core @ w2"
    by (simp add: dropWhile_all)
  from assms(2) have "dropWhile isspace_c (rev w2 @ rev core) = dropWhile isspace_c (rev core)"
    by (intro dropWhile_all) simp
  also from assms(3,5) have "\<dots> = rev core"
    by (intro dropWhile_head) (simp_all add: hd_rev)
  finally show ?thesis by (simp add: strip_c_def 1)
qed

text \<open>The model of \<open>int\<close> accepts the integer literals, with their values.\<close>

lemma py_int_iff: "py_int s = Some n \<longleftrightarrow> int_literal s n"
proof
  assume a: "py_int s = Some n"
  obtain w1 w2 where s: "s = w1 @ strip_c s @ w2" and w: "blank_c w1" "blank_c w2"
    using strip_c_decompose [of s] by (auto simp: blank_c_iff)
  from a obtain c cs where t: "strip_c s = c # cs"
    by (auto simp: py_int_def split: list.splits)
  have "\<exists>sg b v. c # cs = sg @ b \<and> sg \<in> {'''', ''+'', ''-''} \<and> int_body b = Some v \<and>
      n = (if sg = ''-'' then - int v else int v)"
  proof (cases "c = CHR ''-''")
    case True
    with a t obtain v where "int_body cs = Some v" "n = - int v"
      by (auto simp: py_int_def)
    with True show ?thesis
      by (intro exI [of _ "''-''"] exI [of _ cs] exI [of _ v]) simp
  next
    case False
    show ?thesis
    proof (cases "c = CHR ''+''")
      case True
      with a t obtain v where "int_body cs = Some v" "n = int v"
        by (auto simp: py_int_def)
      with True show ?thesis
        by (intro exI [of _ "''+''"] exI [of _ cs] exI [of _ v]) simp
    next
      case plus: False
      with False a t obtain v where "int_body (c # cs) = Some v" "n = int v"
        by (auto simp: py_int_def)
      then show ?thesis
        by (intro exI [of _ "[]"] exI [of _ "c # cs"] exI [of _ v]) simp
    qed
  qed
  then obtain sg b v where core: "c # cs = sg @ b" and sg: "sg \<in> {'''', ''+'', ''-''}"
      and body: "int_body b = Some v" and n: "n = (if sg = ''-'' then - int v else int v)"
    by auto
  from s t core have "s = w1 @ sg @ b @ w2" by simp
  with w sg body n show "int_literal s n"
    unfolding int_literal_def int_body_iff
    by (intro exI [of _ w1] exI [of _ sg] exI [of _ b] exI [of _ w2] exI [of _ v]) simp
next
  assume "int_literal s n"
  then have "\<exists>w1 sg b w2 v. s = w1 @ sg @ b @ w2 \<and> blank_c w1 \<and> blank_c w2 \<and>
        sg \<in> {'''', ''+'', ''-''} \<and> decimal_numeral b v \<and>
        length (filter is_digit b) \<le> 4300 \<and>
        n = (if sg = ''-'' then - int v else int v)"
    by (simp only: int_literal_def)
  then obtain w1 sg b w2 v where s: "s = w1 @ sg @ b @ w2" and w: "blank_c w1" "blank_c w2"
      and sg: "sg \<in> {'''', ''+'', ''-''}" and d: "decimal_numeral b v"
      and m: "length (filter is_digit b) \<le> 4300"
      and n: "n = (if sg = ''-'' then - int v else int v)"
    by (elim exE conjE)
  from d m have body: "int_body b = Some v" by (simp add: int_body_iff)
  from decimal_numeral_chars [OF d] have b: "b \<noteq> []" "is_digit (hd b)" "is_digit (last b)"
    by simp_all
  from sg have sg': "sg = [] \<or> sg = ''+'' \<or> sg = ''-''" by simp
  have sp: "\<not> isspace_c CHR ''+''" "\<not> isspace_c CHR ''-''"
    by (simp_all add: isspace_c_def)
  from b have nb: "\<not> isspace_c (hd b)" "\<not> isspace_c (last b)"
    by (simp_all add: digit_not_space)
  from b sg' nb sp have core: "sg @ b \<noteq> []" "\<not> isspace_c (hd (sg @ b))"
      "\<not> isspace_c (last (sg @ b))"
    by auto
  from w have "\<forall>c \<in> set w1. isspace_c c" "\<forall>c \<in> set w2. isspace_c c"
    by (simp_all add: blank_c_iff)
  from strip_c_core [OF this core] s have t: "strip_c s = sg @ b" by simp
  from sg' show "py_int s = Some n"
  proof (elim disjE)
    assume e: "sg = []"
    from b obtain c cs where bc: "b = c # cs" by (cases b) simp_all
    with b digit_not_sign [of c] have "c \<noteq> CHR ''-''" "c \<noteq> CHR ''+''" by simp_all
    with bc t e body n show ?thesis by (simp add: py_int_def)
  next
    assume "sg = ''+''"
    with t body n show ?thesis by (simp add: py_int_def)
  next
    assume "sg = ''-''"
    with t body n show ?thesis by (simp add: py_int_def)
  qed
qed

lemma number_token_iff: "number_token t n \<longleftrightarrow> CHR ''-'' \<notin> set t \<and> py_int t = Some n"
  by (simp add: number_token_def py_int_iff)

text \<open>Splitting at a separator.\<close>

lemma split_on_acc_nonempty: "split_on_acc sep cur s \<noteq> []"
  by (induction s arbitrary: cur) auto

lemma split_on_acc_single:
  "split_on_acc sep cur s = [x] \<longleftrightarrow> sep \<notin> set s \<and> x = cur @ s"
  by (induction s arbitrary: cur) (auto simp: split_on_acc_nonempty)

lemma split_on_acc_pair:
  "split_on_acc sep cur s = [l, r] \<longleftrightarrow>
     (\<exists>l'. sep \<notin> set l' \<and> sep \<notin> set r \<and> s = l' @ sep # r \<and> l = cur @ l')"
proof (induction s arbitrary: cur)
  case Nil
  show ?case by simp
next
  case (Cons c cs)
  show ?case
  proof (cases "c = sep")
    case True
    have "(\<exists>l'. sep \<notin> set l' \<and> sep \<notin> set r \<and> sep # cs = l' @ sep # r \<and> l = cur @ l')
          \<longleftrightarrow> (sep \<notin> set cs \<and> r = cs \<and> l = cur)"
      by (auto simp: Cons_eq_append_conv)
    with True show ?thesis by (auto simp: split_on_acc_single)
  next
    case False
    have "(\<exists>l'. sep \<notin> set l' \<and> sep \<notin> set r \<and> c # cs = l' @ sep # r \<and> l = cur @ l')
          \<longleftrightarrow> (\<exists>l''. sep \<notin> set l'' \<and> sep \<notin> set r \<and> cs = l'' @ sep # r \<and> l = (cur @ [c]) @ l'')"
      using False by (auto simp: Cons_eq_append_conv)
    with False Cons.IH [of "cur @ [c]"] show ?thesis by simp
  qed
qed

lemma split_on_pair:
  "split_on sep s = [l, r] \<longleftrightarrow> sep \<notin> set l \<and> sep \<notin> set r \<and> s = l @ sep # r"
  by (auto simp: split_on_def split_on_acc_pair)

lemma case_two_parsed:
  "(case xs of [Some a, Some b] \<Rightarrow> F a b | _ \<Rightarrow> D)
     = (if \<exists>a b. xs = [Some a, Some b] then F (the (xs ! 0)) (the (xs ! 1)) else D)"
  by (auto split: list.splits option.splits)

lemma map_eq_two:
  "map f xs = [u, v] \<longleftrightarrow> (\<exists>l r. xs = [l, r] \<and> f l = u \<and> f r = v)"
  by (cases xs; cases "tl xs"; cases "tl (tl xs)") auto

lemma range_token_positions:
  assumes h: "CHR ''-'' \<in> set t"
  shows "(case map py_int (split_on CHR ''-'' t) of
            [Some start, Some end] \<Rightarrow> selected \<union> set [start..end]
          | _ \<Rightarrow> selected)
         = selected \<union> {i. \<exists>l r a b. t = l @ ''-'' @ r \<and> number_token l a \<and>
                                      number_token r b \<and> a \<le> i \<and> i \<le> b}"
    (is "?code = selected \<union> ?spec")
proof (cases "\<exists>a b. map py_int (split_on CHR ''-'' t) = [Some a, Some b]")
  case True
  then obtain a b where ab: "map py_int (split_on CHR ''-'' t) = [Some a, Some b]" by auto
  then obtain l r where lr: "split_on CHR ''-'' t = [l, r]" "py_int l = Some a" "py_int r = Some b"
    by (auto simp: map_eq_two)
  from lr(1) have dec: "CHR ''-'' \<notin> set l" "CHR ''-'' \<notin> set r" "t = l @ CHR ''-'' # r"
    by (simp_all add: split_on_pair)
  have "?spec = {a..b}"
  proof (intro set_eqI iffI)
    fix i assume "i \<in> ?spec"
    then obtain l' r' a' b' where s: "t = l' @ ''-'' @ r'" "number_token l' a'"
        "number_token r' b'" "a' \<le> i" "i \<le> b'"
      by auto
    from s(2,3) have n: "CHR ''-'' \<notin> set l'" "CHR ''-'' \<notin> set r'"
        and p: "py_int l' = Some a'" "py_int r' = Some b'"
      by (simp_all add: number_token_iff)
    from s(1) n have "split_on CHR ''-'' t = [l', r']" by (simp add: split_on_pair)
    with lr(1) have "l' = l" "r' = r" by simp_all
    with p lr(2,3) s(4,5) show "i \<in> {a..b}" by simp
  next
    fix i assume "i \<in> {a..b}"
    with dec lr(2,3)
    have "t = l @ ''-'' @ r \<and> number_token l a \<and> number_token r b \<and>
          a \<le> i \<and> i \<le> b"
      by (simp add: number_token_iff)
    then have "\<exists>l r a b. t = l @ ''-'' @ r \<and> number_token l a \<and>
          number_token r b \<and> a \<le> i \<and> i \<le> b"
      by (intro exI)
    then show "i \<in> ?spec" by simp
  qed
  then have spec_range: "?spec = set [a..b]" by simp
  from ab have code_range: "?code = selected \<union> set [a..b]" by simp
  show ?thesis unfolding code_range spec_range by simp
next
  case False
  have spec_empty: "?spec = {}"
  proof (rule ccontr)
    assume "?spec \<noteq> {}"
    then obtain i l' r' a' b' where s: "t = l' @ ''-'' @ r'" "number_token l' a'"
        "number_token r' b'" "a' \<le> i" "i \<le> b'"
      by auto
    from s(2,3) have n: "CHR ''-'' \<notin> set l'" "CHR ''-'' \<notin> set r'"
        and p: "py_int l' = Some a'" "py_int r' = Some b'"
      by (simp_all add: number_token_iff)
    from s(1) n have "split_on CHR ''-'' t = [l', r']" by (simp add: split_on_pair)
    with p have "map py_int (split_on CHR ''-'' t) = [Some a', Some b']" by simp
    with False show False by auto
  qed
  from False have code_skips: "?code = selected" by (simp add: case_two_parsed)
  show ?thesis unfolding code_skips spec_empty by simp
qed

lemma parse_step_positions: "parse_step tok selected = selected \<union> token_positions tok"
proof (cases "CHR ''-'' \<in> set (strip tok)")
  case True
  then have "{i. number_token (strip tok) i} = {}"
    by (simp add: number_token_iff)
  with True range_token_positions [OF True, of selected] show ?thesis
    by (simp add: parse_step_def token_positions_def)
next
  case False
  then have "{i. \<exists>l r a b. strip tok = l @ ''-'' @ r \<and> number_token l a \<and>
                    number_token r b \<and> a \<le> i \<and> i \<le> b} = {}"
    by auto
  with False show ?thesis
    by (auto simp: parse_step_def token_positions_def number_token_iff split: option.splits)
qed

lemma fold_parse_step:
  "fold parse_step toks selected = selected \<union> (\<Union>tok \<in> set toks. token_positions tok)"
  by (induction toks arbitrary: selected) (auto simp: parse_step_positions)

lemma finite_parse_step: "finite selected \<Longrightarrow> finite (parse_step tok selected)"
  by (auto simp: parse_step_def Let_def split: list.splits option.splits)

lemma finite_fold_parse_step: "finite selected \<Longrightarrow> finite (fold parse_step toks selected)"
  by (induction toks arbitrary: selected) (auto simp: finite_parse_step)

lemma filter_sorted_list_of_set:
  "finite A \<Longrightarrow> filter P (sorted_list_of_set A) = sorted_list_of_set {x \<in> A. P x}"
  by (rule sorted_distinct_set_unique) (auto simp: sorted_filter [where f = "\<lambda>x. x", simplified])

lemma nth_positions: "map (\<lambda>i. xs ! nat (i - 1)) [1..int (length xs)] = xs"
  by (rule nth_equalityI) (auto simp: nth_upto)

lemma parse_indices_all: "lower s = ''all'' \<Longrightarrow> parse_indices papers s = papers"
  by (simp add: parse_indices_def)

lemma parse_indices_named:
  "parse_indices papers s
     = map (\<lambda>i. papers ! nat (i - 1)) (sorted_list_of_set (named_positions s (length papers)))"
proof (cases "lower s = ''all''")
  case True
  then show ?thesis
    by (simp add: parse_indices_def named_positions_def sorted_lift_of_set_eq_upto nth_positions)
next
  case False
  let ?sel = "fold parse_step (split_on CHR '','' s) {}"
  have "finite ?sel" by (simp add: finite_fold_parse_step)
  then have "filter (\<lambda>i. 1 \<le> i \<and> i \<le> int (length papers)) (sorted_list_of_set ?sel)
      = sorted_list_of_set {i \<in> ?sel. 1 \<le> i \<and> i \<le> int (length papers)}"
    by (rule filter_sorted_list_of_set)
  moreover have "{i \<in> ?sel. 1 \<le> i \<and> i \<le> int (length papers)} = named_positions s (length papers)"
    using False by (auto simp: named_positions_def fold_parse_step)
  ultimately show ?thesis using False by (simp add: parse_indices_def)
qed

lemma parse_indices_ascending:
  "\<exists>is. sorted_wrt (<) is \<and> set is \<subseteq> {1..int (length papers)} \<and>
        parse_indices papers s = map (\<lambda>i. papers ! nat (i - 1)) is"
proof (cases "lower s = ''all''")
  case True
  have "sorted_wrt (<) [1..int (length papers)]"
    by (simp add: strict_sorted_iff)
  with True show ?thesis
    by (intro exI [of _ "[1..int (length papers)]"]) (simp add: parse_indices_def nth_positions)
next
  case False
  let ?is = "filter (\<lambda>i. 1 \<le> i \<and> i \<le> int (length papers))
               (sorted_list_of_set (fold parse_step (split_on CHR '','' s) {}))"
  have "sorted_wrt (<) ?is"
    by (intro sorted_wrt_filter) (simp add: strict_sorted_iff)
  with False show ?thesis
    by (intro exI [of _ ?is]) (auto simp: parse_indices_def)
qed

text \<open>
  The numerals by their rules alone: \<open>12\<close> is the number twelve, and so is \<open>1_2\<close> with
  a plus sign and blanks around it.
\<close>

lemma decimal_numeral_twelve: "decimal_numeral ''12'' 12 \<and> decimal_numeral ''1_2'' 12"
proof -
  have one: "decimal_numeral ''1'' 1"
    using decimal_numeral.one [of "CHR ''1''"] by (simp add: is_digit_def digit_of_def)
  from decimal_numeral.more [OF one, of "CHR ''2''"]
  have "decimal_numeral ''12'' 12" by (simp add: is_digit_def digit_of_def)
  moreover from decimal_numeral.grouped [OF one, of "CHR ''2''"]
  have "decimal_numeral ''1_2'' 12" by (simp add: is_digit_def digit_of_def)
  ultimately show ?thesis by simp
qed

lemma number_token_twelve: "number_token ''12'' 12 \<and> number_token '' +1_2 '' 12"
proof -
  have "int_literal ''12'' 12"
    unfolding int_literal_def
    using decimal_numeral_twelve
    by (intro exI [of _ "[]"] exI [of _ "''12''"] exI [of _ "12 :: nat"])
      (simp add: blank_c_def is_digit_def)
  moreover have "int_literal '' +1_2 '' 12"
    unfolding int_literal_def
    using decimal_numeral_twelve
    by (intro exI [of _ "'' ''"] exI [of _ "''+''"] exI [of _ "''1_2''"] exI [of _ "'' ''"]
        exI [of _ "12 :: nat"])
      (simp add: blank_c_def is_digit_def)
  ultimately show ?thesis by (simp add: number_token_def)
qed

lemmas parse_defs = parse_indices_def parse_step_def split_on_def py_int_def strip_c_def
    isspace_c_def int_body_def max_str_digits_def digit_val_def strip_def isspace_def
    lower_def lower_char_def Let_def

text \<open>
  Claim C8: index selection returns exactly the papers at the in-range positions that
  the comma-separated tokens name, in ascending order; positions out of range are
  dropped and a token that does not parse names nothing, the other tokens still
  counting. Over a list of five, \<open>1,3-4\<close> gives the items at positions 1, 3 and 4,
  \<open>9\<close> gives nothing, and in \<open>x,2,3abc,4\<close> the tokens \<open>x\<close> and \<open>3abc\<close> are skipped.
  What a token names is stated by the rules of decimal numerals, not by the parser.
\<close>

theorem parse_indices_selects_named_positions:
  "parse_indices papers s
     = map (\<lambda>i. papers ! nat (i - 1)) (sorted_list_of_set (named_positions s (length papers))) \<and>
   parse_indices [p1, p2, p3, p4, p5] ''1,3-4'' = [p1, p3, p4] \<and>
   parse_indices [p1, p2, p3, p4, p5] ''9'' = [] \<and>
   parse_indices [p1, p2, p3, p4, p5] ''x,2,3abc,4'' = [p2, p4]"
proof (intro conjI)
  show "parse_indices papers s
     = map (\<lambda>i. papers ! nat (i - 1)) (sorted_list_of_set (named_positions s (length papers)))"
    by (rule parse_indices_named)
  have "fold parse_step (split_on CHR '','' ''1,3-4'') {} = {3, 4, 1}"
    by (simp add: parse_defs)
  then show "parse_indices [p1, p2, p3, p4, p5] ''1,3-4'' = [p1, p3, p4]"
    by (simp add: parse_indices_def lower_def lower_char_def)
  show "parse_indices [p1, p2, p3, p4, p5] ''9'' = []"
    by (simp add: parse_defs)
  have "fold parse_step (split_on CHR '','' ''x,2,3abc,4'') {} = {4, 2}"
    by (simp add: parse_defs)
  then show "parse_indices [p1, p2, p3, p4, p5] ''x,2,3abc,4'' = [p2, p4]"
    by (simp add: parse_indices_def lower_def lower_char_def)
qed

text \<open>
  Over a list of twelve: \<open>12\<close> is position twelve, \<open>0_2\<close> and \<open>+5\<close> are positions 2
  and 5, and \<open>10-11\<close> is a range. The tokens \<open>3abc\<close>, \<open>1x\<close>, \<open>7-\<close> and \<open>-2\<close> are
  skipped one by one. The character 0x1C is whitespace for \<open>strip\<close> and not for
  \<open>int\<close>: around the token \<open>7\<close> it is removed, inside the range \<open>1-3\<close> it makes the
  token fail.
\<close>

theorem parse_indices_selects_named_positions_witness:
  "parse_indices [101, 102, 103, 104, 105, 106, 107, 108, 109, 110, 111, 112 :: nat]
     (''12,3abc,1x,0_2, +5,7-,-2,1-'' @ [CHR 0x1C] @ ''3,'' @ [CHR 0x1C] @ ''7'' @ [CHR 0x1C]
        @ '',10-11,13'')
     = map (\<lambda>i. [101, 102, 103, 104, 105, 106, 107, 108, 109, 110, 111, 112] ! nat (i - 1))
         (sorted_list_of_set (named_positions
            (''12,3abc,1x,0_2, +5,7-,-2,1-'' @ [CHR 0x1C] @ ''3,'' @ [CHR 0x1C] @ ''7'' @ [CHR 0x1C]
               @ '',10-11,13'')
            (length [101, 102, 103, 104, 105, 106, 107, 108, 109, 110, 111, 112 :: nat]))) \<and>
   parse_indices [101, 102, 103, 104, 105, 106, 107, 108, 109, 110, 111, 112 :: nat]
     (''12,3abc,1x,0_2, +5,7-,-2,1-'' @ [CHR 0x1C] @ ''3,'' @ [CHR 0x1C] @ ''7'' @ [CHR 0x1C]
        @ '',10-11,13'')
     = [102, 105, 107, 110, 111, 112] \<and>
   parse_indices [10, 20, 30, 40, 50 :: nat] ''1,3-4'' = [10, 30, 40] \<and>
   parse_indices [10, 20, 30, 40, 50 :: nat] ''9'' = [] \<and>
   parse_indices [10, 20, 30, 40, 50 :: nat] ''x,2,3abc,4'' = [20, 40]"
proof -
  let ?L = "[101, 102, 103, 104, 105, 106, 107, 108, 109, 110, 111, 112 :: nat]"
  let ?s = "''12,3abc,1x,0_2, +5,7-,-2,1-'' @ [CHR 0x1C] @ ''3,'' @ [CHR 0x1C] @ ''7'' @ [CHR 0x1C]
        @ '',10-11,13''"
  have e: "parse_indices ?L ?s = [102, 105, 107, 110, 111, 112]"
    by code_simp
  note t = parse_indices_selects_named_positions
    [where papers = ?L and s = ?s
       and ?p1.0 = "10 :: nat" and ?p2.0 = "20 :: nat" and ?p3.0 = "30 :: nat"
       and ?p4.0 = "40 :: nat" and ?p5.0 = "50 :: nat"]
  show ?thesis
    by (intro conjI) (rule t [THEN conjunct1], rule e, rule t [THEN conjunct2, THEN conjunct1],
        rule t [THEN conjunct2, THEN conjunct2, THEN conjunct1],
        rule t [THEN conjunct2, THEN conjunct2, THEN conjunct2])
qed

text \<open>
  Claim C10: whatever the selection string, index selection returns the papers of a
  strictly increasing list of in-range positions, so in ascending position order and
  each position at most once, however the tokens are ordered, repeated or overlap. The
  string \<open>all\<close> returns the list as it is.
\<close>

theorem parse_indices_ascending_without_repeats:
  "(\<exists>is. sorted_wrt (<) is \<and> set is \<subseteq> {1..int (length papers)} \<and>
         parse_indices papers s = map (\<lambda>i. papers ! nat (i - 1)) is) \<and>
   parse_indices papers ''all'' = papers"
  using parse_indices_ascending [of papers s]
  by (simp add: parse_indices_all lower_def lower_char_def)

theorem parse_indices_ascending_without_repeats_witness:
  "(\<exists>is. sorted_wrt (<) is \<and> set is \<subseteq> {1..int (length [10, 20, 30, 40, 50 :: nat])} \<and>
         [10, 30, 40] = map (\<lambda>i. [10, 20, 30, 40, 50 :: nat] ! nat (i - 1)) is) \<and>
   parse_indices [10, 20, 30, 40, 50 :: nat] ''4,1,3-4,1'' = [10, 30, 40] \<and>
   parse_indices [10, 20, 30, 40, 50 :: nat] ''all'' = [10, 20, 30, 40, 50]"
proof -
  have e: "parse_indices [10, 20, 30, 40, 50 :: nat] ''4,1,3-4,1'' = [10, 30, 40]"
    by code_simp
  from parse_indices_ascending_without_repeats
    [where papers = "[10, 20, 30, 40, 50 :: nat]" and s = "''4,1,3-4,1''"]
  show ?thesis unfolding e by simp
qed

end
